theory Spec2Isabelle
  imports Complex_Main
begin

section \<open>JavaScript strings\<close>

text \<open>
  A JavaScript string is a sequence of UTF-16 code units. The assistant handles Arabic as
  well as English text, so a code unit is a natural number (not an 8-bit \<open>char\<close>);
  \<open>u\<close> turns an ASCII literal of the source into such a sequence.
\<close>

type_synonym cu = nat
type_synonym jsstring = "cu list"

definition u :: "string \<Rightarrow> jsstring" where
  "u s = map of_char s"

definition isUpperAZ :: "cu \<Rightarrow> bool" where
  "isUpperAZ c = (65 \<le> c \<and> c \<le> 90)"

definition isLowerAZ :: "cu \<Rightarrow> bool" where
  "isLowerAZ c = (97 \<le> c \<and> c \<le> 122)"

definition isDigit :: "cu \<Rightarrow> bool" where
  "isDigit c = (48 \<le> c \<and> c \<le> 57)"

text \<open>The class \<^verbatim>\<open>\w\<close>: letters, digits and the underscore.\<close>

definition isWordChar :: "cu \<Rightarrow> bool" where
  "isWordChar c = (isUpperAZ c \<or> isLowerAZ c \<or> isDigit c \<or> c = 95)"

text \<open>
  ECMAScript white space and line terminators: what \<^verbatim>\<open>trim()\<close> strips and what
  \<^verbatim>\<open>\s\<close> matches.
\<close>

definition isSpace :: "cu \<Rightarrow> bool" where
  "isSpace c = ((9 \<le> c \<and> c \<le> 13) \<or> c = 32 \<or> c = 160 \<or> c = 5760 \<or> (8192 \<le> c \<and> c \<le> 8202)
     \<or> c = 8232 \<or> c = 8233 \<or> c = 8239 \<or> c = 8287 \<or> c = 12288 \<or> c = 65279)"

definition isLineTerminator :: "cu \<Rightarrow> bool" where
  "isLineTerminator c = (c = 10 \<or> c = 13 \<or> c = 8232 \<or> c = 8233)"

text \<open>
  \<^verbatim>\<open>toLowerCase()\<close> belongs to the JavaScript runtime and follows the Unicode case
  tables. The functions below take it as a parameter, and the properties proved about them
  hold for every such function (some of them need that it maps the empty string to the
  empty string, as JavaScript's does).

  \<open>toLowerCase_latin\<close> is the instance on which the examples are run. It is exact on
  Basic Latin and the Latin-1 Supplement, on the two units outside ASCII that lower-case
  into ASCII (the Kelvin sign, and the dotted capital I, which becomes two units), on the
  Angstrom sign and on every caseless unit; other cased letters it leaves as they are.
\<close>

type_synonym lowercase = "jsstring \<Rightarrow> jsstring"

definition lowerUnit :: "cu \<Rightarrow> jsstring" where
  "lowerUnit c =
     (if isUpperAZ c \<or> (192 \<le> c \<and> c \<le> 222 \<and> c \<noteq> 215) then [c + 32]
      else if c = 304 then [105, 775]
      else if c = 8490 then [107]
      else if c = 8491 then [229]
      else [c])"

definition toLowerCase_latin :: lowercase where
  "toLowerCase_latin s = concat (map lowerUnit s)"

definition trim :: "jsstring \<Rightarrow> jsstring" where
  "trim s = rev (dropWhile isSpace (rev (dropWhile isSpace s)))"

fun startsWith :: "jsstring \<Rightarrow> jsstring \<Rightarrow> bool" where
  "startsWith s [] = True"
| "startsWith [] (k # ks) = False"
| "startsWith (c # cs) (k # ks) = (c = k \<and> startsWith cs ks)"

text \<open>\<^verbatim>\<open>s.includes(k)\<close>: \<open>k\<close> occurs in \<open>s\<close> as a contiguous run.\<close>

fun str_includes :: "jsstring \<Rightarrow> jsstring \<Rightarrow> bool" where
  "str_includes [] k = (k = [])"
| "str_includes (c # cs) k = (startsWith (c # cs) k \<or> str_includes cs k)"

section \<open>Regular expressions\<close>

text \<open>
  The regular expressions of the sources use literals, character classes, alternation,
  the anchors \<^verbatim>\<open>^\<close>, \<^verbatim>\<open>$\<close> and \<^verbatim>\<open>\b\<close>, and the greedy quantifiers
  \<^verbatim>\<open>*\<close>, \<^verbatim>\<open>+\<close>, \<^verbatim>\<open>?\<close> and \<^verbatim>\<open>{n,}\<close>, the quantifiers always on a single
  character or class. \<open>Rep k n\<close> is "at least \<open>n\<close> units of class \<open>k\<close>, as many as
  possible first"; \<open>Opt k\<close> is \<^verbatim>\<open>k?\<close>.
\<close>

datatype atom = Chr cu | Rng cu cu | Dig | Wrd | Spc

datatype cls = Dot | Set "atom list" | NSet "atom list"

datatype re =
    Lit jsstring
  | Cls cls
  | Cat re re
  | Alt re re
  | Rep cls nat
  | Opt cls
  | Bol
  | Eol
  | Wb

text \<open>A regular expression with its \<^verbatim>\<open>i\<close> flag.\<close>

type_synonym regex = "re \<times> bool"

fun seqs :: "re list \<Rightarrow> re" where
  "seqs [] = Lit []"
| "seqs [r] = r"
| "seqs (r # rs) = Cat r (seqs rs)"

fun alts :: "re list \<Rightarrow> re" where
  "alts [] = Cls (Set [])"
| "alts [r] = r"
| "alts (r # rs) = Alt r (alts rs)"

definition lit :: "string \<Rightarrow> re" where
  "lit s = Lit (u s)"

definition oneof :: "string list \<Rightarrow> re" where
  "oneof ws = alts (map lit ws)"

text \<open>
  Case-insensitive matching compares canonicalised units. ECMAScript's \<open>Canonicalize\<close>
  (without the \<^verbatim>\<open>u\<close> flag) upper-cases a unit, and never maps a unit from 128 on to one
  below 128; every literal and class member of the patterns below is ASCII, so the ASCII
  upper-casing decides the same matches.
\<close>

definition canon :: "cu \<Rightarrow> cu" where
  "canon c = (if isLowerAZ c then c - 32 else c)"

definition unit_eq :: "bool \<Rightarrow> cu \<Rightarrow> cu \<Rightarrow> bool" where
  "unit_eq ic a c = (if ic then canon a = canon c else a = c)"

fun atom_has :: "bool \<Rightarrow> atom \<Rightarrow> cu \<Rightarrow> bool" where
  "atom_has ic (Chr a) c = unit_eq ic a c"
| "atom_has ic (Rng lo hi) c =
     (if ic then list_ex (\<lambda>a. canon a = canon c) [lo ..< Suc hi] else lo \<le> c \<and> c \<le> hi)"
| "atom_has ic Dig c = isDigit c"
| "atom_has ic Wrd c = isWordChar c"
| "atom_has ic Spc c = isSpace c"

fun cls_has :: "bool \<Rightarrow> cls \<Rightarrow> cu \<Rightarrow> bool" where
  "cls_has ic Dot c = (\<not> isLineTerminator c)"
| "cls_has ic (Set as) c = list_ex (\<lambda>a. atom_has ic a c) as"
| "cls_has ic (NSet as) c = (\<not> list_ex (\<lambda>a. atom_has ic a c) as)"

text \<open>
  A position in the input is the unit before it (\<open>None\<close> at the start) and the rest of the
  input. The matcher returns every position at which a match of the expression that starts
  at the given position can end, in the order in which a backtracking engine tries them:
  the first one is the match JavaScript reports.
\<close>

type_synonym pos = "cu option \<times> jsstring"

fun lit_match :: "bool \<Rightarrow> jsstring \<Rightarrow> cu option \<Rightarrow> jsstring \<Rightarrow> pos option" where
  "lit_match ic [] p s = Some (p, s)"
| "lit_match ic (k # ks) p [] = None"
| "lit_match ic (k # ks) p (c # cs) =
     (if unit_eq ic k c then lit_match ic ks (Some c) cs else None)"

fun reps :: "bool \<Rightarrow> cls \<Rightarrow> nat \<Rightarrow> cu option \<Rightarrow> jsstring \<Rightarrow> pos list" where
  "reps ic k n p [] = (if n = 0 then [(p, [])] else [])"
| "reps ic k n p (c # cs) =
     (if cls_has ic k c then reps ic k (n - 1) (Some c) cs else [])
     @ (if n = 0 then [(p, c # cs)] else [])"

definition wordBefore :: "cu option \<Rightarrow> bool" where
  "wordBefore p = (case p of None \<Rightarrow> False | Some c \<Rightarrow> isWordChar c)"

definition wordAfter :: "jsstring \<Rightarrow> bool" where
  "wordAfter s = (case s of [] \<Rightarrow> False | c # cs \<Rightarrow> isWordChar c)"

fun rmatch :: "bool \<Rightarrow> re \<Rightarrow> cu option \<Rightarrow> jsstring \<Rightarrow> pos list" where
  "rmatch ic (Lit l) p s = (case lit_match ic l p s of None \<Rightarrow> [] | Some q \<Rightarrow> [q])"
| "rmatch ic (Cls k) p s =
     (case s of [] \<Rightarrow> [] | c # cs \<Rightarrow> if cls_has ic k c then [(Some c, cs)] else [])"
| "rmatch ic (Cat a b) p s = concat (map (\<lambda>q. rmatch ic b (fst q) (snd q)) (rmatch ic a p s))"
| "rmatch ic (Alt a b) p s = rmatch ic a p s @ rmatch ic b p s"
| "rmatch ic (Rep k n) p s = reps ic k n p s"
| "rmatch ic (Opt k) p s =
     (case s of [] \<Rightarrow> [] | c # cs \<Rightarrow> if cls_has ic k c then [(Some c, cs)] else []) @ [(p, s)]"
| "rmatch ic Bol p s = (if p = None then [(p, s)] else [])"
| "rmatch ic Eol p s = (if s = [] then [(p, s)] else [])"
| "rmatch ic Wb p s = (if wordBefore p \<noteq> wordAfter s then [(p, s)] else [])"

text \<open>
  \<^verbatim>\<open>pattern.test(text)\<close> for a pattern without the \<^verbatim>\<open>g\<close> flag: is there a match
  starting at some position of the text, tried from left to right.
\<close>

fun search :: "bool \<Rightarrow> re \<Rightarrow> cu option \<Rightarrow> jsstring \<Rightarrow> bool" where
  "search ic r p [] = (rmatch ic r p [] \<noteq> [])"
| "search ic r p (c # cs) = (rmatch ic r p (c # cs) \<noteq> [] \<or> search ic r (Some c) cs)"

definition re_test :: "regex \<Rightarrow> jsstring \<Rightarrow> bool" where
  "re_test pattern text = search (snd pattern) (fst pattern) None text"

section \<open>The intent classifier\<close>

text \<open>
  \<^verbatim>\<open>INTENTS\<close>, in the order in which the object literal declares its keys.
\<close>

datatype intent =
  policy_question | order_status | product_search | complaint | chitchat | off_topic | violation

definition INTENTS_values :: "intent list" where
  "INTENTS_values =
     [policy_question, order_status, product_search, complaint, chitchat, off_topic, violation]"

text \<open>Keywords and patterns of \<^verbatim>\<open>INTENTS.POLICY_QUESTION\<close>; the patterns, in source order:
  \<^item> \<^verbatim>\<open>/what (is|are) (your|the) .*(policy|policies)/i\<close>
  \<^item> \<^verbatim>\<open>/how (do|does|can|to) .*(return|refund|exchange)/i\<close>
  \<^item> \<^verbatim>\<open>/how long .*(shipping|delivery|return)/i\<close>
  \<^item> \<^verbatim>\<open>/can i (return|exchange|cancel)/i\<close>
  \<^item> \<^verbatim>\<open>/do you (ship|deliver)/i\<close>
  \<^item> \<^verbatim>\<open>/what happens if/i\<close>\<close>

definition policy_question_keywords :: "jsstring list" where
  "policy_question_keywords = map u [
    ''policy'', ''return'', ''refund'', ''exchange'', ''warranty'', ''shipping'',
    ''delivery'', ''privacy'', ''terms'', ''conditions'', ''guarantee'', ''cancel'',
    ''how long'', ''how much cost'', ''international'', ''payment methods'', ''security'']"

definition policy_question_patterns :: "regex list" where
  "policy_question_patterns = [
    (seqs [lit ''what '', oneof [''is'', ''are''], lit '' '', oneof [''your'', ''the''],
       lit '' '', Rep Dot 0, oneof [''policy'', ''policies'']], True),
    (seqs [lit ''how '', oneof [''do'', ''does'', ''can'', ''to''], lit '' '', Rep Dot 0,
       oneof [''return'', ''refund'', ''exchange'']], True),
    (seqs [lit ''how long '', Rep Dot 0, oneof [''shipping'', ''delivery'', ''return'']],
       True),
    (seqs [lit ''can i '', oneof [''return'', ''exchange'', ''cancel'']], True),
    (seqs [lit ''do you '', oneof [''ship'', ''deliver'']], True),
    (lit ''what happens if'', True)]"

text \<open>Keywords and patterns of \<^verbatim>\<open>INTENTS.ORDER_STATUS\<close>; the patterns, in source order:
  \<^item> \<^verbatim>\<open>/where.*my.*(order|package|shipment)/i\<close>
  \<^item> \<^verbatim>\<open>/track.*order/i\<close>
  \<^item> \<^verbatim>\<open>/order.*status/i\<close>
  \<^item> \<^verbatim>\<open>/when.*arrive/i\<close>
  \<^item> \<^verbatim>\<open>/has.*shipped/i\<close>
  \<^item> \<^verbatim>\<open>/(check|see|view).*order/i\<close>
  \<^item> \<^verbatim>\<open>/order\s*#?\d+/i\<close>
  \<^item> \<^verbatim>\<open>/my recent (order|purchase)/i\<close>\<close>

definition order_status_keywords :: "jsstring list" where
  "order_status_keywords = map u [
    ''order'', ''track'', ''tracking'', ''status'', ''where'', ''delivered'', ''shipment'',
    ''package'', ''arrival'', ''shipped'', ''order number'', ''order id'', ''my purchase'']"

definition order_status_patterns :: "regex list" where
  "order_status_patterns = [
    (seqs [lit ''where'', Rep Dot 0, lit ''my'', Rep Dot 0, oneof [''order'', ''package'',
       ''shipment'']], True),
    (seqs [lit ''track'', Rep Dot 0, lit ''order''], True),
    (seqs [lit ''order'', Rep Dot 0, lit ''status''], True),
    (seqs [lit ''when'', Rep Dot 0, lit ''arrive''], True),
    (seqs [lit ''has'', Rep Dot 0, lit ''shipped''], True),
    (seqs [oneof [''check'', ''see'', ''view''], Rep Dot 0, lit ''order''], True),
    (seqs [lit ''order'', Rep (Set [Spc]) 0, Opt (Set [Chr 35]), Rep (Set [Dig]) 1], True),
    (seqs [lit ''my recent '', oneof [''order'', ''purchase'']], True)]"

text \<open>Keywords and patterns of \<^verbatim>\<open>INTENTS.PRODUCT_SEARCH\<close>; the patterns, in source order:
  \<^item> \<^verbatim>\<open>/show.*products?/i\<close>
  \<^item> \<^verbatim>\<open>/(looking|search) for/i\<close>
  \<^item> \<^verbatim>\<open>/do you (have|sell)/i\<close>
  \<^item> \<^verbatim>\<open>/what.*(products?|items?).*(available|have|sell)/i\<close>
  \<^item> \<^verbatim>\<open>/recommend.*for/i\<close>
  \<^item> \<^verbatim>\<open>/products?.*(under|less than|cheaper)/i\<close>
  \<^item> \<^verbatim>\<open>/best.*for/i\<close>
  \<^item> \<^verbatim>\<open>/(browse|shop|see).*(category|products?)/i\<close>\<close>

definition product_search_keywords :: "jsstring list" where
  "product_search_keywords = map u [
    ''product'', ''item'', ''looking for'', ''search'', ''find'', ''show'', ''available'',
    ''stock'', ''price'', ''cost'', ''category'', ''products'', ''shop'', ''browse'',
    ''recommend'']"

definition product_search_patterns :: "regex list" where
  "product_search_patterns = [
    (seqs [lit ''show'', Rep Dot 0, lit ''product'', Opt (Set [Chr 115])], True),
    (seqs [oneof [''looking'', ''search''], lit '' for''], True),
    (seqs [lit ''do you '', oneof [''have'', ''sell'']], True),
    (seqs [lit ''what'', Rep Dot 0, alts [seqs [lit ''product'', Opt (Set [Chr 115])], seqs
       [lit ''item'', Opt (Set [Chr 115])]], Rep Dot 0, oneof [''available'', ''have'',
       ''sell'']], True),
    (seqs [lit ''recommend'', Rep Dot 0, lit ''for''], True),
    (seqs [lit ''product'', Opt (Set [Chr 115]), Rep Dot 0, oneof [''under'', ''less than'',
       ''cheaper'']], True),
    (seqs [lit ''best'', Rep Dot 0, lit ''for''], True),
    (seqs [oneof [''browse'', ''shop'', ''see''], Rep Dot 0, alts [lit ''category'', seqs
       [lit ''product'', Opt (Set [Chr 115])]]], True)]"

text \<open>Keywords and patterns of \<^verbatim>\<open>INTENTS.COMPLAINT\<close>; the patterns, in source order:
  \<^item> \<^verbatim>\<open>/(not|isn't|wasn't|won't|didn't) work/i\<close>
  \<^item> \<^verbatim>\<open>/this is (terrible|awful|horrible|unacceptable)/i\<close>
  \<^item> \<^verbatim>\<open>/i('m| am) (upset|angry|frustrated|disappointed)/i\<close>
  \<^item> \<^verbatim>\<open>/(broken|damaged|wrong) (product|item|order)/i\<close>
  \<^item> \<^verbatim>\<open>/want to (complain|file a complaint)/i\<close>
  \<^item> \<^verbatim>\<open>/speak to (manager|supervisor)/i\<close>
  \<^item> \<^verbatim>\<open>/this is ridiculous/i\<close>\<close>

definition complaint_keywords :: "jsstring list" where
  "complaint_keywords = map u [
    ''problem'', ''issue'', ''broken'', ''damaged'', ''wrong'', ''complaint'', ''unhappy'',
    ''disappointed'', ''terrible'', ''worst'', ''awful'', ''horrible'', ''bad'',
    ''unacceptable'', ''frustrated'', ''angry'', ''upset'']"

definition complaint_patterns :: "regex list" where
  "complaint_patterns = [
    (seqs [oneof [''not'', ''isn't'', ''wasn't'', ''won't'', ''didn't''], lit '' work''],
       True),
    (seqs [lit ''this is '', oneof [''terrible'', ''awful'', ''horrible'',
       ''unacceptable'']], True),
    (seqs [lit ''i'', oneof ['''m'', '' am''], lit '' '', oneof [''upset'', ''angry'',
       ''frustrated'', ''disappointed'']], True),
    (seqs [oneof [''broken'', ''damaged'', ''wrong''], lit '' '', oneof [''product'',
       ''item'', ''order'']], True),
    (seqs [lit ''want to '', oneof [''complain'', ''file a complaint'']], True),
    (seqs [lit ''speak to '', oneof [''manager'', ''supervisor'']], True),
    (lit ''this is ridiculous'', True)]"

text \<open>Keywords and patterns of \<^verbatim>\<open>INTENTS.CHITCHAT\<close>; the patterns, in source order:
  \<^item> \<^verbatim>\<open>/^(hi|hello|hey)$/i\<close>
  \<^item> \<^verbatim>\<open>/^(thanks|thank you|thx)$/i\<close>
  \<^item> \<^verbatim>\<open>/^(bye|goodbye|see you)$/i\<close>
  \<^item> \<^verbatim>\<open>/how are you/i\<close>
  \<^item> \<^verbatim>\<open>/what('s| is) your name/i\<close>
  \<^item> \<^verbatim>\<open>/who are you/i\<close>
  \<^item> \<^verbatim>\<open>/good (morning|afternoon|evening)/i\<close>
  \<^item> \<^verbatim>\<open>/^help$/i\<close>
  \<^item> \<^verbatim>\<open>/nice to meet/i\<close>
  \<^item> \<^verbatim>\<open>/are you (human|robot|ai|bot)/i\<close>\<close>

definition chitchat_keywords :: "jsstring list" where
  "chitchat_keywords = map u [
    ''hello'', ''hi'', ''hey'', ''thanks'', ''thank you'', ''bye'', ''goodbye'',
    ''how are you'', ''good morning'', ''good evening'', ''what's up'', ''name'',
    ''who are you'', ''help'']"

definition chitchat_patterns :: "regex list" where
  "chitchat_patterns = [
    (seqs [Bol, oneof [''hi'', ''hello'', ''hey''], Eol], True),
    (seqs [Bol, oneof [''thanks'', ''thank you'', ''thx''], Eol], True),
    (seqs [Bol, oneof [''bye'', ''goodbye'', ''see you''], Eol], True),
    (lit ''how are you'', True),
    (seqs [lit ''what'', oneof ['''s'', '' is''], lit '' your name''], True),
    (lit ''who are you'', True),
    (seqs [lit ''good '', oneof [''morning'', ''afternoon'', ''evening'']], True),
    (seqs [Bol, lit ''help'', Eol], True),
    (lit ''nice to meet'', True),
    (seqs [lit ''are you '', oneof [''human'', ''robot'', ''ai'', ''bot'']], True)]"

text \<open>Keywords and patterns of \<^verbatim>\<open>INTENTS.VIOLATION\<close>; the patterns, in source order:
  \<^item> \<^verbatim>\<open>/\b(fuck|shit|bitch|ass)\b/i\<close>
  \<^item> \<^verbatim>\<open>/you('re| are) (stupid|dumb|idiot)/i\<close>
  \<^item> \<^verbatim>\<open>/hate (you|this)/i\<close>
  \<^item> \<^verbatim>\<open>/kill yourself/i\<close>
  \<^item> \<^verbatim>\<open>/go to hell/i\<close>
  \<^item> \<^verbatim>\<open>/(racist|sexist|nazi)/i\<close>\<close>

definition violation_keywords :: "jsstring list" where
  "violation_keywords = map u [
    ''stupid'', ''idiot'', ''hate'', ''suck'', ''damn'', ''hell'', ''racist'', ''sexist'',
    ''discriminate'']"

definition violation_patterns :: "regex list" where
  "violation_patterns = [
    (seqs [Wb, oneof [''fuck'', ''shit'', ''bitch'', ''ass''], Wb], True),
    (seqs [lit ''you'', oneof ['''re'', '' are''], lit '' '', oneof [''stupid'', ''dumb'',
       ''idiot'']], True),
    (seqs [lit ''hate '', oneof [''you'', ''this'']], True),
    (lit ''kill yourself'', True),
    (lit ''go to hell'', True),
    (oneof [''racist'', ''sexist'', ''nazi''], True)]"

text \<open>Keywords and patterns of \<^verbatim>\<open>INTENTS.OFF_TOPIC\<close>; the patterns, in source order:
  \<^item> \<^verbatim>\<open>/what('s| is) the weather/i\<close>
  \<^item> \<^verbatim>\<open>/who won the (game|match)/i\<close>
  \<^item> \<^verbatim>\<open>/tell me a (joke|story)/i\<close>
  \<^item> \<^verbatim>\<open>/how to (cook|make|prepare)/i\<close>
  \<^item> \<^verbatim>\<open>/solve.*equation/i\<close>
  \<^item> \<^verbatim>\<open>/write.*essay/i\<close>
  \<^item> \<^verbatim>\<open>/capital of/i\<close>
  \<^item> \<^verbatim>\<open>/when was.*born/i\<close>
  \<^item> \<^verbatim>\<open>/bitcoin price/i\<close>\<close>

definition off_topic_keywords :: "jsstring list" where
  "off_topic_keywords = map u [
    ''weather'', ''sports'', ''politics'', ''recipe'', ''movie'', ''music'', ''game'',
    ''homework'', ''math'', ''science'', ''history'', ''geography'', ''bitcoin'', ''crypto'',
    ''stocks'']"

definition off_topic_patterns :: "regex list" where
  "off_topic_patterns = [
    (seqs [lit ''what'', oneof ['''s'', '' is''], lit '' the weather''], True),
    (seqs [lit ''who won the '', oneof [''game'', ''match'']], True),
    (seqs [lit ''tell me a '', oneof [''joke'', ''story'']], True),
    (seqs [lit ''how to '', oneof [''cook'', ''make'', ''prepare'']], True),
    (seqs [lit ''solve'', Rep Dot 0, lit ''equation''], True),
    (seqs [lit ''write'', Rep Dot 0, lit ''essay''], True),
    (lit ''capital of'', True),
    (seqs [lit ''when was'', Rep Dot 0, lit ''born''], True),
    (lit ''bitcoin price'', True)]"

definition INTENT_PATTERNS :: "intent \<Rightarrow> jsstring list \<times> regex list" where
  "INTENT_PATTERNS i = (case i of
       policy_question \<Rightarrow> (policy_question_keywords, policy_question_patterns)
     | order_status \<Rightarrow> (order_status_keywords, order_status_patterns)
     | product_search \<Rightarrow> (product_search_keywords, product_search_patterns)
     | complaint \<Rightarrow> (complaint_keywords, complaint_patterns)
     | chitchat \<Rightarrow> (chitchat_keywords, chitchat_patterns)
     | violation \<Rightarrow> (violation_keywords, violation_patterns)
     | off_topic \<Rightarrow> (off_topic_keywords, off_topic_patterns))"

text \<open>
  \<^verbatim>\<open>calculateIntentScore(text, intent)\<close>: 2 for every keyword that the lower-cased text
  includes, 3 for every pattern that matches the text.
\<close>

definition calculateIntentScore :: "lowercase \<Rightarrow> jsstring \<Rightarrow> intent \<Rightarrow> nat" where
  "calculateIntentScore toLowerCase text i =
     (let lowerText = toLowerCase text;
          keywordScore =
            fold (\<lambda>keyword score. if str_includes lowerText keyword then score + 2 else score)
              (fst (INTENT_PATTERNS i)) 0
      in fold (\<lambda>pattern score. if re_test pattern text then score + 3 else score)
           (snd (INTENT_PATTERNS i)) keywordScore)"

text \<open>
  The argument of \<^verbatim>\<open>classifyIntent\<close> is any JavaScript value: a string,
  \<^verbatim>\<open>null\<close>, \<^verbatim>\<open>undefined\<close>, or a value of another type (\<open>JOther\<close>). The
  \<^verbatim>\<open>reason\<close> strings are kept as a datatype, \<open>Matched n\<close> for the template that
  prints the score \<open>n\<close>.
\<close>

datatype jsvalue = JString jsstring | JNull | JUndefined | JOther

datatype reason =
  Invalid_input | Inappropriate_language | Short_message | No_clear_intent | Matched nat

record intent_result =
  intent :: intent
  confidence :: rat
  reason :: reason

text \<open>One round of the loop that looks for the highest score: only a strictly higher score
  replaces the best intent so far.\<close>

definition best_step :: "intent \<times> nat \<Rightarrow> intent \<times> nat \<Rightarrow> intent \<times> nat" where
  "best_step entry best = (if snd entry > snd best then entry else best)"

definition score_of :: "(intent \<times> nat) list \<Rightarrow> intent \<Rightarrow> nat" where
  "score_of scores i = (case map_of scores i of None \<Rightarrow> 0 | Some v \<Rightarrow> v)"

definition invalid_input :: intent_result where
  "invalid_input = \<lparr>intent = off_topic, confidence = 0, reason = Invalid_input\<rparr>"

definition classifyIntent :: "lowercase \<Rightarrow> jsvalue \<Rightarrow> intent_result" where
  "classifyIntent toLowerCase userInput = (case userInput of
       JNull \<Rightarrow> invalid_input
     | JUndefined \<Rightarrow> invalid_input
     | JOther \<Rightarrow> invalid_input
     | JString s \<Rightarrow>
         if s = [] then invalid_input
         else
           let text = trim s;
               scores = map (\<lambda>i. (i, calculateIntentScore toLowerCase text i)) INTENTS_values;
               best = fold best_step scores (off_topic, 0);
               bestIntent = fst best;
               maxScore = snd best
           in if score_of scores violation > 0 then
                \<lparr>intent = violation,
                 confidence = min (of_nat (score_of scores violation) / 5) 1,
                 reason = Inappropriate_language\<rparr>
              else if maxScore = 0 then
                (if length text < 20 then
                   \<lparr>intent = chitchat, confidence = 1 / 2, reason = Short_message\<rparr>
                 else
                   \<lparr>intent = off_topic, confidence = 3 / 10, reason = No_clear_intent\<rparr>)
              else
                \<lparr>intent = bestIntent, confidence = min (of_nat maxScore / 10) 1,
                 reason = Matched maxScore\<rparr>)"

section \<open>The function registry\<close>

text \<open>
  What a handler (or \<^verbatim>\<open>execute\<close> itself) throws: \<open>Error m\<close> is an \<^verbatim>\<open>Error\<close> object
  (of any subclass) whose \<^verbatim>\<open>message\<close> is \<open>m\<close>, \<open>Thrown_null\<close> and
  \<open>Thrown_undefined\<close> are the two values without properties, \<open>Thrown_other\<close> any
  other value, whose \<^verbatim>\<open>message\<close> property reads as \<^verbatim>\<open>undefined\<close>. An asynchronous
  function that throws is a rejected promise; the caller that awaits it sees the exception,
  so both are the left summand of the result.
\<close>

datatype thrown = Error jsstring | Thrown_null | Thrown_undefined | Thrown_other

text \<open>
  A registered function: the \<^verbatim>\<open>required\<close> list of its schema (which may be absent)
  and its handler. Parameters are an object, seen as the map that gives for a property name
  the value found under it in the object or along its prototype chain: this is what both
  \<^verbatim>\<open>param in parameters\<close> and the reading of a property look at.
\<close>

type_synonym 'v params = "jsstring \<rightharpoonup> 'v"

record ('v, 'r) func =
  required :: "jsstring list option"
  handler :: "'v params \<Rightarrow> thrown + 'r"

type_synonym ('v, 'r) registry = "jsstring \<rightharpoonup> ('v, 'r) func"

record 'r execution_result =
  success :: bool
  result :: "'r option"
  error :: "jsstring option"
  function_name :: jsstring

text \<open>\<^verbatim>\<open>register(name, schema, handler)\<close>: an empty name is falsy and is refused.\<close>

definition register ::
  "('v, 'r) registry \<Rightarrow> jsstring \<Rightarrow> jsstring list option \<Rightarrow> ('v params \<Rightarrow> thrown + 'r)
     \<Rightarrow> thrown + ('v, 'r) registry" where
  "register functions name req h =
     (if name = [] then Inl (Error (u ''Name, schema, and handler are required''))
      else Inr (functions(name \<mapsto> \<lparr>required = req, handler = h\<rparr>)))"

definition hasFunction :: "('v, 'r) registry \<Rightarrow> jsstring \<Rightarrow> bool" where
  "hasFunction functions name = (functions name \<noteq> None)"

text \<open>The loop over the required parameters; it throws at the first one that is missing.\<close>

fun check_required :: "jsstring list \<Rightarrow> 'v params \<Rightarrow> thrown + unit" where
  "check_required [] parameters = Inr ()"
| "check_required (param # rest) parameters =
     (if parameters param = None
      then Inl (Error (u ''Missing required parameter: '' @ param))
      else check_required rest parameters)"

text \<open>The body of the \<^verbatim>\<open>try\<close> block, up to the handler's result.\<close>

definition try_body :: "('v, 'r) func \<Rightarrow> 'v params \<Rightarrow> thrown + 'r" where
  "try_body f parameters =
     (case check_required (case required f of None \<Rightarrow> [] | Some r \<Rightarrow> r) parameters of
        Inl e \<Rightarrow> Inl e
      | Inr ok \<Rightarrow> handler f parameters)"

text \<open>
  \<^verbatim>\<open>error.message\<close> in the \<^verbatim>\<open>catch\<close> block. Reading a property of
  \<^verbatim>\<open>null\<close> or \<^verbatim>\<open>undefined\<close> throws a \<^verbatim>\<open>TypeError\<close> (the wording is V8's).
\<close>

definition cannot_read :: "string \<Rightarrow> string \<Rightarrow> thrown" where
  "cannot_read v property =
     Error (u ''Cannot read properties of '' @ u v @ u '' (reading '' @ [39] @ u property
            @ [39] @ u '')'')"

definition message_of :: "thrown \<Rightarrow> thrown + jsstring option" where
  "message_of e = (case e of
       Error m \<Rightarrow> Inr (Some m)
     | Thrown_null \<Rightarrow> Inl (cannot_read ''null'' ''message'')
     | Thrown_undefined \<Rightarrow> Inl (cannot_read ''undefined'' ''message'')
     | Thrown_other \<Rightarrow> Inr None)"

text \<open>
  \<^verbatim>\<open>execute(name, parameters)\<close>. The lookup of the name and its \<^verbatim>\<open>throw\<close> come before
  the \<^verbatim>\<open>try\<close> block.
\<close>

definition execute ::
  "('v, 'r) registry \<Rightarrow> jsstring \<Rightarrow> 'v params \<Rightarrow> thrown + 'r execution_result" where
  "execute functions name parameters =
     (case functions name of
        None \<Rightarrow> Inl (Error (u ''Function '' @ [39] @ name @ [39] @ u '' not found''))
      | Some f \<Rightarrow>
          (case try_body f parameters of
             Inr r \<Rightarrow>
               Inr \<lparr>success = True, result = Some r, error = None, function_name = name\<rparr>
           | Inl e \<Rightarrow>
               (case message_of e of
                  Inl t \<Rightarrow> Inl t
                | Inr m \<Rightarrow>
                    Inr \<lparr>success = False, result = None, error = m, function_name = name\<rparr>)))"

text \<open>The names of the properties that every object literal inherits from
  \<^verbatim>\<open>Object.prototype\<close>, and the object that a literal with the given own properties
  denotes (the inherited values are functions and accessors, \<open>JOther\<close>).\<close>

definition Object_prototype :: "jsstring list" where
  "Object_prototype = map u [
     ''constructor'', ''__defineGetter__'', ''__defineSetter__'', ''hasOwnProperty'',
     ''__lookupGetter__'', ''__lookupSetter__'', ''isPrototypeOf'', ''propertyIsEnumerable'',
     ''toString'', ''valueOf'', ''__proto__'', ''toLocaleString'']"

definition object_literal :: "(jsstring \<times> jsvalue) list \<Rightarrow> jsvalue params" where
  "object_literal own = map_of (own @ map (\<lambda>name. (name, JOther)) Object_prototype)"

text \<open>
  One of the built-in functions, \<^verbatim>\<open>getStorePolicy\<close>, needs no database: it looks the
  lower-cased category up in the object \<^verbatim>\<open>policies\<close>. The lookup
  \<^verbatim>\<open>policies[key]\<close> also finds what the object inherits from
  \<^verbatim>\<open>Object.prototype\<close>: for such a key the handler returns the inherited value, which
  is truthy, and not a policy.
\<close>

record policy =
  title :: jsstring
  summary :: jsstring
  details :: jsstring

datatype policy_result = Policy policy | Inherited jsstring

definition policies :: "(jsstring \<times> policy) list" where
  "policies = [
     (u ''returns'', \<lparr>title = u ''Return Policy'',
        summary = u ''Items can be returned within 30 days with receipt'',
        details = u ''All items must be in original condition with tags attached.''\<rparr>),
     (u ''shipping'', \<lparr>title = u ''Shipping Policy'',
        summary = u ''Free shipping on orders over $50'',
        details = u ''Standard shipping: 5-7 days, Express: 2-3 days, Overnight available.''\<rparr>),
     (u ''warranty'', \<lparr>title = u ''Warranty Policy'',
        summary = u ''1 year warranty on all electronics'',
        details = u ''Covers manufacturing defects. Does not cover physical damage.''\<rparr>)]"

text \<open>
  The category is whatever value the parameters hold (\<^verbatim>\<open>undefined\<close> when they hold
  none). Only a string has a \<^verbatim>\<open>toLowerCase\<close> method; the wording of the
  \<^verbatim>\<open>TypeError\<close>s is V8's.
\<close>

definition getStorePolicy :: "lowercase \<Rightarrow> jsvalue params \<Rightarrow> thrown + policy_result" where
  "getStorePolicy toLowerCase parameters =
     (case (case parameters (u ''category'') of None \<Rightarrow> JUndefined | Some v \<Rightarrow> v) of
        JString category \<Rightarrow>
          (case map_of policies (toLowerCase category) of
             Some p \<Rightarrow> Inr (Policy p)
           | None \<Rightarrow>
               if toLowerCase category \<in> set Object_prototype
               then Inr (Inherited (toLowerCase category))
               else Inl (Error (u ''Policy category '' @ [39] @ category @ [39]
                                @ u '' not found'')))
      | JNull \<Rightarrow> Inl (cannot_read ''null'' ''toLowerCase'')
      | JUndefined \<Rightarrow> Inl (cannot_read ''undefined'' ''toLowerCase'')
      | JOther \<Rightarrow> Inl (Error (u ''category.toLowerCase is not a function'')))"

definition store_registry :: "lowercase \<Rightarrow> (jsvalue, policy_result) registry" where
  "store_registry toLowerCase =
     [u ''getStorePolicy'' \<mapsto>
        \<lparr>required = Some [u ''category''], handler = getStorePolicy toLowerCase\<rparr>]"

section \<open>Scanning a text with a global pattern\<close>

text \<open>The match that starts exactly at a position: the first one the engine finds.\<close>

definition first_match :: "regex \<Rightarrow> cu option \<Rightarrow> jsstring \<Rightarrow> pos option" where
  "first_match pattern p s =
     (case rmatch (snd pattern) (fst pattern) p s of [] \<Rightarrow> None | q # qs \<Rightarrow> Some q)"

text \<open>
  \<^verbatim>\<open>text.match(pattern)\<close> with the \<^verbatim>\<open>g\<close> flag, and the loop over
  \<^verbatim>\<open>pattern.exec(text)\<close>: the matched substrings from left to right, the scan going on
  behind each match (one unit further on after an empty match).
\<close>

function match_all :: "regex \<Rightarrow> cu option \<Rightarrow> jsstring \<Rightarrow> jsstring list" where
  "match_all pattern p s =
     (case first_match pattern p s of
        None \<Rightarrow> (case s of [] \<Rightarrow> [] | c # cs \<Rightarrow> match_all pattern (Some c) cs)
      | Some q \<Rightarrow>
          (let n = length s - length (snd q) in
           if n = 0 then [] # (case s of [] \<Rightarrow> [] | c # cs \<Rightarrow> match_all pattern (Some c) cs)
           else take n s # match_all pattern (fst q) (drop n s)))"
  by pat_completeness auto
termination
  by (relation "measure (\<lambda>(pattern, p, s). length s)") auto

declare match_all.simps [simp del]

text \<open>
  \<^verbatim>\<open>text.match(pattern)\<close> without the \<^verbatim>\<open>g\<close> flag: the text of the leftmost match.
\<close>

fun exec :: "regex \<Rightarrow> cu option \<Rightarrow> jsstring \<Rightarrow> jsstring option" where
  "exec pattern p [] = (case first_match pattern p [] of None \<Rightarrow> None | Some q \<Rightarrow> Some [])"
| "exec pattern p (c # cs) =
     (case first_match pattern p (c # cs) of
        None \<Rightarrow> exec pattern (Some c) cs
      | Some q \<Rightarrow> Some (take (length (c # cs) - length (snd q)) (c # cs)))"

text \<open>
  \<^verbatim>\<open>s.split(/\s+/)\<close>: the pieces between the maximal runs of white space, empty pieces at
  the ends included.
\<close>

function split_ws :: "jsstring \<Rightarrow> jsstring list" where
  "split_ws s =
     takeWhile (\<lambda>c. \<not> isSpace c) s #
       (case dropWhile (\<lambda>c. \<not> isSpace c) s of
          [] \<Rightarrow> []
        | c # rest \<Rightarrow> split_ws (dropWhile isSpace rest))"
  by pat_completeness auto
termination
proof (relation "measure length")
  show "wf (measure length)" by simp
next
  fix s :: jsstring and c rest
  assume "dropWhile (\<lambda>c. \<not> isSpace c) s = c # rest"
  then have "length (c # rest) \<le> length s"
    by (metis length_dropWhile_le)
  moreover have "length (dropWhile isSpace rest) \<le> length rest"
    by (rule length_dropWhile_le)
  ultimately show "(dropWhile isSpace rest, s) \<in> measure length"
    by simp
qed

declare split_ws.simps [simp del]

text \<open>
  A JavaScript \<^verbatim>\<open>Set\<close> keeps its members in the order of their first insertion;
  \<open>set_add\<close> is \<^verbatim>\<open>add\<close>, and \<open>new_Set\<close> is \<^verbatim>\<open>[...new Set(xs)]\<close>.
\<close>

definition set_add :: "'a \<Rightarrow> 'a list \<Rightarrow> 'a list" where
  "set_add x members = (if x \<in> set members then members else members @ [x])"

definition new_Set :: "'a list \<Rightarrow> 'a list" where
  "new_Set xs = fold set_add xs []"

section \<open>The knowledge base, its citations and its policies\<close>

text \<open>An entry of \<^verbatim>\<open>ground-truth.json\<close>; the file itself is a parameter of the model.\<close>

record KnowledgeEntry =
  entry_id :: jsstring
  entry_category :: jsstring
  entry_question :: jsstring
  entry_answer :: jsstring

subsection \<open>The class \<^verbatim>\<open>LLMIntegration\<close>\<close>

text \<open>
  \<^verbatim>\<open>LLMIntegration.findRelevantPolicies(query)\<close>. \<open>policy_score\<close> is the body of the
  \<^verbatim>\<open>map\<close> callback, the score of one policy.
\<close>

definition LLMIntegration_categoryKeywords :: "(jsstring \<times> jsstring list) list" where
  "LLMIntegration_categoryKeywords = [
     (u ''returns'', map u [''return'', ''refund'', ''exchange'']),
     (u ''shipping'', map u [''ship'', ''delivery'', ''carrier'']),
     (u ''payment'', map u [''pay'', ''card'', ''checkout'']),
     (u ''account'', map u [''register'', ''login'', ''password''])]"

definition policy_score :: "lowercase \<Rightarrow> jsstring \<Rightarrow> KnowledgeEntry \<Rightarrow> nat" where
  "policy_score toLowerCase query policy =
     (let queryLower = toLowerCase query;
          keywords = split_ws queryLower;
          content = toLowerCase (entry_question policy @ u '' '' @ entry_answer policy);
          phraseScore = (if str_includes content queryLower then 10 else 0);
          keywordScore =
            fold (\<lambda>keyword score.
                    if length keyword > 3 \<and> str_includes content keyword then score + 1 else score)
              keywords phraseScore
      in fold (\<lambda>entry score.
                 if entry_category policy = fst entry
                 then fold (\<lambda>kw score. if str_includes queryLower kw then score + 2 else score)
                        (snd entry) score
                 else score)
           LLMIntegration_categoryKeywords keywordScore)"

text \<open>
  \<^verbatim>\<open>sort((a, b) => b.score - a.score)\<close> is a stable sort by descending score (ECMAScript
  2019 requires stability): \<open>sort_key\<close> on the negated score.
\<close>

definition LLMIntegration_findRelevantPolicies ::
  "lowercase \<Rightarrow> KnowledgeEntry list \<Rightarrow> jsstring \<Rightarrow> (KnowledgeEntry \<times> nat) list" where
  "LLMIntegration_findRelevantPolicies toLowerCase groundTruth query =
     (let scoredPolicies =
            map (\<lambda>policy. (policy, policy_score toLowerCase query policy)) groundTruth
      in take 3 (sort_key (\<lambda>p. - int (snd p)) (filter (\<lambda>p. snd p > 0) scoredPolicies)))"

text \<open>
  \<^verbatim>\<open>LLMIntegration.extractCitations(text)\<close> with the pattern
  \<^verbatim>\<open>/\[([A-Za-z0-9.]+)\]/g\<close>. The group spans what is between the two brackets, so
  \<^verbatim>\<open>match[1]\<close> is the match without its first and last unit.
\<close>

definition alnum_dot :: cls where
  "alnum_dot = Set [Rng 65 90, Rng 97 122, Rng 48 57, Chr 46]"

definition LLMIntegration_citationPattern :: regex where
  "LLMIntegration_citationPattern = (Cat (Lit [91]) (Cat (Rep alnum_dot 1) (Lit [93])), False)"

definition unbracket :: "jsstring \<Rightarrow> jsstring" where
  "unbracket m = butlast (tl m)"

definition LLMIntegration_extractCitations :: "jsstring \<Rightarrow> jsstring list" where
  "LLMIntegration_extractCitations text =
     new_Set (map unbracket (match_all LLMIntegration_citationPattern None text))"

text \<open>\<^verbatim>\<open>LLMIntegration.validateCitations(citations)\<close>: the pair of \<^verbatim>\<open>valid\<close> and
  \<^verbatim>\<open>invalid\<close>.\<close>

definition LLMIntegration_validateCitations ::
  "KnowledgeEntry list \<Rightarrow> jsstring list \<Rightarrow> jsstring list \<times> jsstring list" where
  "LLMIntegration_validateCitations groundTruth citations =
     (let validIds = map entry_id groundTruth
      in (filter (\<lambda>c. c \<in> set validIds) citations, filter (\<lambda>c. c \<notin> set validIds) citations))"

subsection \<open>The citation validator module\<close>

text \<open>
  \<^verbatim>\<open>extractCitations(responseText)\<close> of the citation validator, with its own pattern
  \<^verbatim>\<open>/\[([A-Za-z]+[\w.]*)\]/g\<close>; every match loses its brackets by
  \<^verbatim>\<open>slice(1, -1)\<close>.
\<close>

definition letters :: cls where
  "letters = Set [Rng 65 90, Rng 97 122]"

definition word_dot :: cls where
  "word_dot = Set [Wrd, Chr 46]"

definition citationPattern :: regex where
  "citationPattern =
     (Cat (Lit [91]) (Cat (Rep letters 1) (Cat (Rep word_dot 0) (Lit [93]))), False)"

definition extractCitations :: "jsstring \<Rightarrow> jsstring list" where
  "extractCitations responseText = map unbracket (match_all citationPattern None responseText)"

record validation =
  isValid :: bool
  validCitations :: "(jsstring \<times> KnowledgeEntry) list"
  invalidCitations :: "jsstring list"
  validCount :: nat
  invalidCount :: nat

text \<open>One round of the loop of \<^verbatim>\<open>validateCitations\<close>, on the two lists it fills.\<close>

definition validate_step ::
  "KnowledgeEntry list \<Rightarrow> jsstring \<Rightarrow>
     (jsstring \<times> KnowledgeEntry) list \<times> jsstring list \<Rightarrow>
     (jsstring \<times> KnowledgeEntry) list \<times> jsstring list" where
  "validate_step knowledgeBase citation acc =
     (case find (\<lambda>p. entry_id p = citation) knowledgeBase of
        Some found \<Rightarrow> (fst acc @ [(citation, found)], snd acc)
      | None \<Rightarrow> (fst acc, snd acc @ [citation]))"

definition validateCitations :: "KnowledgeEntry list \<Rightarrow> jsstring list \<Rightarrow> validation" where
  "validateCitations knowledgeBase citations =
     (let acc = fold (validate_step knowledgeBase) citations ([], [])
      in \<lparr>isValid = (length (snd acc) = 0),
          validCitations = fst acc,
          invalidCitations = snd acc,
          validCount = length (fst acc),
          invalidCount = length (snd acc)\<rparr>)"

definition validateResponse :: "KnowledgeEntry list \<Rightarrow> jsstring \<Rightarrow> jsstring list \<times> validation" where
  "validateResponse knowledgeBase responseText =
     (let extractedCitations = extractCitations responseText
      in (extractedCitations, validateCitations knowledgeBase extractedCitations))"

text \<open>
  \<^verbatim>\<open>findRelevantPolicies(userQuery)\<close> of the citation validator: the policies of the
  categories whose keywords the query mentions or, when there are none, the policies whose
  question or answer matches the query; at most three, in the order of the knowledge base.
\<close>

definition categoryKeywords :: "(jsstring \<times> jsstring list) list" where
  "categoryKeywords = [
     (u ''returns'', map u [''return'', ''refund'', ''exchange'', ''money back'', ''send back'']),
     (u ''shipping'',
        map u [''ship'', ''delivery'', ''deliver'', ''arrival'', ''transit'', ''carrier'', ''track'']),
     (u ''warranty'',
        map u [''warranty'', ''guarantee'', ''defect'', ''broken'', ''repair'', ''replace'']),
     (u ''privacy'',
        map u [''privacy'', ''data'', ''personal information'', ''secure'', ''confidential'']),
     (u ''security'',
        map u [''security'', ''hack'', ''password'', ''protection'', ''payment'', ''safe'']),
     (u ''payment'', map u [''payment'', ''pay'', ''credit card'', ''billing'', ''charge''])]"

definition matched_categories :: "jsstring \<Rightarrow> jsstring list" where
  "matched_categories query =
     map fst (filter (\<lambda>entry. list_ex (\<lambda>kw. str_includes query kw) (snd entry))
                categoryKeywords)"

definition direct_match :: "lowercase \<Rightarrow> jsstring \<Rightarrow> KnowledgeEntry \<Rightarrow> bool" where
  "direct_match toLowerCase query p =
     (let pQuestion = toLowerCase (entry_question p);
          pAnswer = toLowerCase (entry_answer p)
      in str_includes query (take 20 pQuestion)
         \<or> str_includes pQuestion (take 20 query)
         \<or> str_includes pAnswer query)"

definition findRelevantPolicies ::
  "lowercase \<Rightarrow> KnowledgeEntry list \<Rightarrow> jsstring \<Rightarrow> KnowledgeEntry list" where
  "findRelevantPolicies toLowerCase knowledgeBase userQuery =
     (if length knowledgeBase = 0 then []
      else
        let query = toLowerCase userQuery;
            matchedCategories = matched_categories query;
            byCategory =
              (if length matchedCategories > 0
               then filter (\<lambda>p. entry_category p \<in> set matchedCategories) knowledgeBase
               else []);
            relevantPolicies =
              (if length byCategory = 0
               then filter (direct_match toLowerCase query) knowledgeBase
               else byCategory)
        in take 3 relevantPolicies)"

section \<open>Arrays and the module state\<close>

text \<open>
  The two functions above give the value that the JavaScript functions compute from the
  contents of the knowledge base. In JavaScript the knowledge base is an array object that
  a module variable refers to (\<^verbatim>\<open>knowledgeBase\<close> in the citation validator,
  \<^verbatim>\<open>groundTruth\<close> in \<^verbatim>\<open>LLMIntegration\<close>), and the array methods work on references:
  \<^verbatim>\<open>filter\<close>, \<^verbatim>\<open>map\<close> and \<^verbatim>\<open>slice\<close> build a new array, \<^verbatim>\<open>sort\<close> sorts the
  array it is called on where it stands. The memory below holds the arrays of entries by
  reference, the next unused reference and the module variable. The arrays of strings that
  a call builds for its own use (\<^verbatim>\<open>matchedCategories\<close>, \<^verbatim>\<open>keywords\<close>) never leave
  the call and are plain lists.
\<close>

datatype array = Entries "KnowledgeEntry list" | Scored "(KnowledgeEntry \<times> nat) list"

record memory =
  arrays :: "nat \<rightharpoonup> array"
  next_ref :: nat
  knowledgeBase :: nat

definition new_array :: "array \<Rightarrow> memory \<Rightarrow> nat \<times> memory" where
  "new_array a m =
     (next_ref m, m\<lparr>arrays := (arrays m)(next_ref m \<mapsto> a), next_ref := Suc (next_ref m)\<rparr>)"

text \<open>The array methods. A call on something that is not an array of the expected kind
  throws (\<open>None\<close>).\<close>

definition array_filter ::
  "(KnowledgeEntry \<Rightarrow> bool) \<Rightarrow> nat \<Rightarrow> memory \<Rightarrow> (nat \<times> memory) option" where
  "array_filter P r m = (case arrays m r of
       Some (Entries es) \<Rightarrow> Some (new_array (Entries (filter P es)) m)
     | Some (Scored ps) \<Rightarrow> None
     | None \<Rightarrow> None)"

definition array_map ::
  "(KnowledgeEntry \<Rightarrow> KnowledgeEntry \<times> nat) \<Rightarrow> nat \<Rightarrow> memory \<Rightarrow> (nat \<times> memory) option" where
  "array_map f r m = (case arrays m r of
       Some (Entries es) \<Rightarrow> Some (new_array (Scored (map f es)) m)
     | Some (Scored ps) \<Rightarrow> None
     | None \<Rightarrow> None)"

definition scored_filter ::
  "(KnowledgeEntry \<times> nat \<Rightarrow> bool) \<Rightarrow> nat \<Rightarrow> memory \<Rightarrow> (nat \<times> memory) option" where
  "scored_filter P r m = (case arrays m r of
       Some (Scored ps) \<Rightarrow> Some (new_array (Scored (filter P ps)) m)
     | Some (Entries es) \<Rightarrow> None
     | None \<Rightarrow> None)"

text \<open>\<^verbatim>\<open>sort((a, b) => b.score - a.score)\<close>: the receiver itself is sorted and
  returned.\<close>

definition array_sort :: "nat \<Rightarrow> memory \<Rightarrow> (nat \<times> memory) option" where
  "array_sort r m = (case arrays m r of
       Some (Scored ps) \<Rightarrow>
         Some (r, m\<lparr>arrays := (arrays m)(r \<mapsto> Scored (sort_key (\<lambda>p. - int (snd p)) ps))\<rparr>)
     | Some (Entries es) \<Rightarrow> None
     | None \<Rightarrow> None)"

definition array_slice :: "nat \<Rightarrow> nat \<Rightarrow> memory \<Rightarrow> (nat \<times> memory) option" where
  "array_slice n r m = (case arrays m r of
       Some (Entries es) \<Rightarrow> Some (new_array (Entries (take n es)) m)
     | Some (Scored ps) \<Rightarrow> Some (new_array (Scored (take n ps)) m)
     | None \<Rightarrow> None)"

definition array_length :: "memory \<Rightarrow> nat \<Rightarrow> nat" where
  "array_length m r = (case arrays m r of
       Some (Entries es) \<Rightarrow> length es
     | Some (Scored ps) \<Rightarrow> length ps
     | None \<Rightarrow> 0)"

text \<open>
  A call of \<^verbatim>\<open>findRelevantPolicies(userQuery)\<close> of the citation validator: the
  reference of the array it returns, and the memory it leaves.
\<close>

definition findRelevantPolicies_call ::
  "lowercase \<Rightarrow> jsstring \<Rightarrow> memory \<Rightarrow> (nat \<times> memory) option" where
  "findRelevantPolicies_call toLowerCase userQuery m =
     (case arrays m (knowledgeBase m) of
        None \<Rightarrow> None
      | Some (Scored ps) \<Rightarrow> None
      | Some (Entries kb) \<Rightarrow>
          if length kb = 0 then Some (new_array (Entries []) m)
          else
            let query = toLowerCase userQuery;
                matchedCategories = matched_categories query;
                empty = new_array (Entries []) m
            in Option.bind
                 (if length matchedCategories > 0
                  then array_filter (\<lambda>p. entry_category p \<in> set matchedCategories)
                         (knowledgeBase (snd empty)) (snd empty)
                  else Some empty)
                 (\<lambda>byCategory.
                    Option.bind
                      (if array_length (snd byCategory) (fst byCategory) = 0
                       then array_filter (direct_match toLowerCase query)
                              (knowledgeBase (snd byCategory)) (snd byCategory)
                       else Some byCategory)
                      (\<lambda>relevantPolicies.
                         array_slice 3 (fst relevantPolicies) (snd relevantPolicies))))"

text \<open>A call of \<^verbatim>\<open>LLMIntegration.findRelevantPolicies(query)\<close>.\<close>

definition LLMIntegration_findRelevantPolicies_call ::
  "lowercase \<Rightarrow> jsstring \<Rightarrow> memory \<Rightarrow> (nat \<times> memory) option" where
  "LLMIntegration_findRelevantPolicies_call toLowerCase query m =
     Option.bind
       (array_map (\<lambda>policy. (policy, policy_score toLowerCase query policy))
          (knowledgeBase m) m)
       (\<lambda>scoredPolicies.
          Option.bind
            (scored_filter (\<lambda>p. snd p > 0) (fst scoredPolicies) (snd scoredPolicies))
            (\<lambda>positive.
               Option.bind (array_sort (fst positive) (snd positive))
                 (\<lambda>sorted. array_slice 3 (fst sorted) (snd sorted))))"

section \<open>Query expansion\<close>

datatype language = en | ar

text \<open>\<^verbatim>\<open>isArabic\<close> tests the text against \<^verbatim>\<open>/[\u0600-\u06FF]/\<close>.\<close>

definition arabicPattern :: regex where
  "arabicPattern = (Cls (Set [Rng 1536 1791]), False)"

definition isArabic :: "jsstring \<Rightarrow> bool" where
  "isArabic text = re_test arabicPattern text"

definition detectLanguage :: "jsstring \<Rightarrow> language" where
  "detectLanguage text = (if isArabic text then ar else en)"

text \<open>
  The synonym dictionaries, keys in the order of the object literal. The Arabic words are
  written as their UTF-16 code units.
\<close>

definition synonyms_en :: "(jsstring \<times> jsstring list) list" where
  "synonyms_en = [
    (u ''return_policy'',
       map u [''return'', ''refund'', ''exchange'', ''money back'', ''send back'', ''give back'']),
    (u ''shipping'', map u [''shipping'', ''delivery'', ''ship'', ''deliver'', ''send'', ''transport'']),
    (u ''order_status'',
       map u [''order status'', ''track order'', ''where is my order'', ''order tracking'']),
    (u ''warranty'', map u [''warranty'', ''guarantee'', ''protection plan'', ''coverage'']),
    (u ''product'', map u [''product'', ''item'', ''goods'', ''merchandise'']),
    (u ''price'', map u [''price'', ''cost'', ''how much'', ''pricing'']),
    (u ''payment'', map u [''payment'', ''pay'', ''checkout'', ''billing'']),
    (u ''cancel'', map u [''cancel'', ''stop'', ''void'', ''revoke''])]"

definition synonyms_ar :: "(jsstring \<times> jsstring list) list" where
  "synonyms_ar = [
    (u ''return_policy'',
       [[1573, 1585, 1580, 1575, 1593], [1575, 1587, 1578, 1585, 1583, 1575, 1583],
        [1575, 1587, 1578, 1576, 1583, 1575, 1604], [1575, 1587, 1578, 1585, 1580, 1575, 1593]]),
    (u ''shipping'',
       [[1588, 1581, 1606], [1578, 1608, 1589, 1610, 1604], [1578, 1587, 1604, 1610, 1605],
        [1573, 1585, 1587, 1575, 1604]]),
    (u ''order_status'',
       [[1581, 1575, 1604, 1577, 32, 1575, 1604, 1591, 1604, 1576],
        [1578, 1578, 1576, 1593, 32, 1575, 1604, 1591, 1604, 1576],
        [1571, 1610, 1606, 32, 1591, 1604, 1576, 1610]]),
    (u ''warranty'', [[1590, 1605, 1575, 1606], [1603, 1601, 1575, 1604, 1577]]),
    (u ''product'',
       [[1605, 1606, 1578, 1580], [1587, 1604, 1593, 1577], [1576, 1590, 1575, 1593, 1577]]),
    (u ''price'', [[1587, 1593, 1585], [1579, 1605, 1606], [1578, 1603, 1604, 1601, 1577]]),
    (u ''payment'',
       [[1583, 1601, 1593], [1575, 1604, 1583, 1601, 1593],
        [1575, 1604, 1587, 1583, 1575, 1583]]),
    (u ''cancel'',
       [[1573, 1604, 1594, 1575, 1569], [1573, 1604, 1594, 1609], [1578, 1608, 1602, 1601]])]"

definition synonyms :: "language \<Rightarrow> (jsstring \<times> jsstring list) list" where
  "synonyms lang = (case lang of en \<Rightarrow> synonyms_en | ar \<Rightarrow> synonyms_ar)"

text \<open>The cross-lingual hints: English phrases for an Arabic query, Arabic phrases (the
  counterparts of "return policy", "shipping options", "order status") for an English one.\<close>

definition english_hints :: "jsstring list" where
  "english_hints = map u [''return policy'', ''shipping options'', ''order status'']"

definition arabic_hints :: "jsstring list" where
  "arabic_hints = [
     [1587, 1610, 1575, 1587, 1577, 32, 1575, 1604, 1573, 1585, 1580, 1575, 1593],
     [1582, 1610, 1575, 1585, 1575, 1578, 32, 1575, 1604, 1588, 1581, 1606],
     [1581, 1575, 1604, 1577, 32, 1575, 1604, 1591, 1604, 1576]]"

text \<open>
  One key of the dictionary: when the text includes one of its words, every word of the
  key is added (and the inner loop stops).
\<close>

definition expand_key ::
  "lowercase \<Rightarrow> jsstring \<Rightarrow> jsstring \<times> jsstring list \<Rightarrow> jsstring list \<Rightarrow> jsstring list" where
  "expand_key toLowerCase text entry additions =
     (if list_ex (\<lambda>word. str_includes (toLowerCase text) (toLowerCase word)) (snd entry)
      then fold set_add (snd entry) additions
      else additions)"

text \<open>
  \<^verbatim>\<open>expandQuery(userInput)\<close> for a string; \<^verbatim>\<open>String(userInput || '')\<close> is then the
  input itself.
\<close>

definition expandQuery :: "lowercase \<Rightarrow> jsstring \<Rightarrow> jsstring list" where
  "expandQuery toLowerCase userInput =
     (let text = userInput;
          lang = detectLanguage text;
          dict = synonyms lang;
          matched = fold (expand_key toLowerCase text) dict [];
          additions = fold set_add (if lang = ar then english_hints else arabic_hints) matched
      in take 12 (text # additions))"

section \<open>The storefront's answer engine\<close>


record GroundTruthItem =
  item_qid :: jsstring
  item_category :: jsstring
  item_question :: jsstring
  item_answer :: jsstring



text \<open>The order id pattern \<^verbatim>\<open>/([A-Z0-9]{10,})/i\<close>.\<close>

definition alnum :: cls where
  "alnum = Set [Rng 65 90, Rng 48 57]"

definition orderIdPattern :: regex where
  "orderIdPattern = (Rep alnum 10, True)"






section \<open>Notions of the specification\<close>

text \<open>
  The order in which the specification declares the intents (it differs from
  \<open>INTENTS_values\<close> in its last two places), and the first intent of an order among those
  with the highest score.
\<close>

definition declared_order :: "intent list" where
  "declared_order =
     [policy_question, order_status, product_search, complaint, chitchat, violation, off_topic]"

definition first_highest :: "(intent \<Rightarrow> nat) \<Rightarrow> intent list \<Rightarrow> intent" where
  "first_highest f order = hd (filter (\<lambda>i. f i = Max (f ` set order)) order)"



text \<open>A small knowledge base for examples: the return policy of the specification's first
  example, and a warranty entry.\<close>

definition Q01 :: KnowledgeEntry where
  "Q01 = \<lparr>entry_id = u ''Q01'', entry_category = u ''returns'',
           entry_question = u ''What is your return policy?'',
           entry_answer = u ''Items may be returned within 30 days.''\<rparr>"

definition W01 :: KnowledgeEntry where
  "W01 = \<lparr>entry_id = u ''W01'', entry_category = u ''warranty'',
           entry_question = u ''Is there a warranty?'',
           entry_answer = u ''One year on electronics.''\<rparr>"

definition example_kb :: "KnowledgeEntry list" where
  "example_kb = [W01, Q01]"

text \<open>The memory in which the module variable refers to the only array, which holds the
  example knowledge base.\<close>

definition example_memory :: memory where
  "example_memory =
     \<lparr>arrays = [0 \<mapsto> Entries example_kb], next_ref = 1, knowledgeBase = 0\<rparr>"

text \<open>
  Citations as the specification describes them. A citation is a substring made of an
  opening bracket, a token and a closing bracket; \<open>tokens_by token_at text\<close> collects, position
  by position from the left, the token of the citation that starts there. For the
  specification the token is one or more letters, digits or dots.
\<close>

definition isAlnumDot :: "cu \<Rightarrow> bool" where
  "isAlnumDot c = (isUpperAZ c \<or> isLowerAZ c \<or> isDigit c \<or> c = 46)"

definition citation_at :: "jsstring \<Rightarrow> jsstring option" where
  "citation_at s = (case s of
       [] \<Rightarrow> None
     | c # cs \<Rightarrow>
         if c = 91 \<and> takeWhile isAlnumDot cs \<noteq> [] \<and> startsWith (dropWhile isAlnumDot cs) [93]
         then Some (takeWhile isAlnumDot cs) else None)"

fun tokens_by :: "(jsstring \<Rightarrow> jsstring option) \<Rightarrow> jsstring \<Rightarrow> jsstring list" where
  "tokens_by token_at [] = []"
| "tokens_by token_at (c # cs) =
     (case token_at (c # cs) of
        None \<Rightarrow> tokens_by token_at cs
      | Some tok \<Rightarrow> tok # tokens_by token_at cs)"

definition citations_in :: "jsstring \<Rightarrow> jsstring list" where
  "citations_in text = tokens_by citation_at text"

text \<open>A list without its repetitions, every element at the place of its first occurrence.\<close>

function first_occurrences :: "'a list \<Rightarrow> 'a list" where
  "first_occurrences [] = []"
| "first_occurrences (x # xs) = x # first_occurrences (filter (\<lambda>y. y \<noteq> x) xs)"
  by pat_completeness auto
termination
  by (relation "measure length") (auto simp: le_imp_less_Suc)

text \<open>
  The tokens of the citation validator's own pattern: a letter first, then letters, digits,
  underscores or dots.
\<close>

definition isLetter :: "cu \<Rightarrow> bool" where
  "isLetter c = (isUpperAZ c \<or> isLowerAZ c)"

definition isWordDot :: "cu \<Rightarrow> bool" where
  "isWordDot c = (isWordChar c \<or> c = 46)"

definition policy_citation_at :: "jsstring \<Rightarrow> jsstring option" where
  "policy_citation_at s = (case s of
       [] \<Rightarrow> None
     | c # cs \<Rightarrow>
         if c = 91 \<and> (case cs of [] \<Rightarrow> False | d # ds \<Rightarrow> isLetter d)
            \<and> startsWith (dropWhile isWordDot cs) [93]
         then Some (takeWhile isWordDot cs) else None)"

definition is_policy_id :: "jsstring \<Rightarrow> bool" where
  "is_policy_id tok = (tok \<noteq> [] \<and> isLetter (hd tok) \<and> list_all isWordDot tok)"

text \<open>
  The score of an entry in the words of the specification: 10 when the full query occurs in
  the entry's combined question and answer, 1 for every query keyword longer than three
  units that occurs there, 2 for every keyword of the entry's topic family that occurs in
  the query; all comparisons on lower-cased text.
\<close>

definition spec_policy_score :: "lowercase \<Rightarrow> jsstring \<Rightarrow> KnowledgeEntry \<Rightarrow> nat" where
  "spec_policy_score toLowerCase query e =
     (let q = toLowerCase query;
          combined = toLowerCase (entry_question e @ u '' '' @ entry_answer e)
      in (if str_includes combined q then 10 else 0)
         + length (filter (\<lambda>keyword. length keyword > 3 \<and> str_includes combined keyword)
                     (split_ws q))
         + 2 * length (filter (str_includes q)
                         (concat (map snd (filter (\<lambda>family. entry_category e = fst family)
                                             LLMIntegration_categoryKeywords)))))"


text \<open>
  The order id in the words of the claim: an alphanumeric character is an ASCII letter or
  digit, and the masked form of an id shows an asterisk for every character except the
  last four. Two order lookups for the examples: one answers with the carrier "UPS", the
  other repeats the order id as the carrier's reference.
\<close>

definition isAlnum :: "cu \<Rightarrow> bool" where
  "isAlnum c = (isUpperAZ c \<or> isLowerAZ c \<or> isDigit c)"



section \<open>Evaluating the model\<close>

lemma ascii_units:
  "of_char CHR ''a'' = (97::nat)" "of_char CHR ''b'' = (98::nat)" "of_char CHR ''c'' = (99::nat)"
  "of_char CHR ''d'' = (100::nat)" "of_char CHR ''e'' = (101::nat)" "of_char CHR ''f'' = (102::nat)"
  "of_char CHR ''g'' = (103::nat)" "of_char CHR ''h'' = (104::nat)" "of_char CHR ''i'' = (105::nat)"
  "of_char CHR ''j'' = (106::nat)" "of_char CHR ''k'' = (107::nat)" "of_char CHR ''l'' = (108::nat)"
  "of_char CHR ''m'' = (109::nat)" "of_char CHR ''n'' = (110::nat)" "of_char CHR ''o'' = (111::nat)"
  "of_char CHR ''p'' = (112::nat)" "of_char CHR ''q'' = (113::nat)" "of_char CHR ''r'' = (114::nat)"
  "of_char CHR ''s'' = (115::nat)" "of_char CHR ''t'' = (116::nat)" "of_char CHR ''u'' = (117::nat)"
  "of_char CHR ''v'' = (118::nat)" "of_char CHR ''w'' = (119::nat)" "of_char CHR ''x'' = (120::nat)"
  "of_char CHR ''y'' = (121::nat)" "of_char CHR ''z'' = (122::nat)" "of_char CHR '' '' = (32::nat)"
  "of_char (CHR 0x27) = (39::nat)"
  by simp_all

lemmas unit_defs = isUpperAZ_def isLowerAZ_def isDigit_def isWordChar_def isSpace_def
  isLineTerminator_def lowerUnit_def canon_def unit_eq_def toLowerCase_latin_def

text \<open>The two loops of \<open>calculateIntentScore\<close> count the keywords and the patterns that
  match.\<close>

lemma fold_count:
  "fold (\<lambda>x s. if P x then s + c else s) xs a = a + c * length (filter P xs)"
  by (induction xs arbitrary: a) auto

lemma calculateIntentScore_count:
  "calculateIntentScore lower text i =
     2 * length (filter (str_includes (lower text)) (fst (INTENT_PATTERNS i)))
     + 3 * length (filter (\<lambda>pattern. re_test pattern text) (snd (INTENT_PATTERNS i)))"
  by (simp add: calculateIntentScore_def Let_def fold_count)

lemmas score_defs = calculateIntentScore_count INTENT_PATTERNS_def re_test_def lit_def oneof_def
  u_def wordBefore_def wordAfter_def unit_defs

section \<open>The intent classifier: properties\<close>

lemma score_empty:
  assumes "lower [] = []"
  shows "calculateIntentScore lower [] i = 0"
proof (cases i)
  case policy_question
  then show ?thesis
    using assms by (simp add: score_defs policy_question_keywords_def policy_question_patterns_def
        del: of_char_Char)
next
  case order_status
  then show ?thesis
    using assms by (simp add: score_defs order_status_keywords_def order_status_patterns_def
        del: of_char_Char)
next
  case product_search
  then show ?thesis
    using assms by (simp add: score_defs product_search_keywords_def product_search_patterns_def
        del: of_char_Char)
next
  case complaint
  then show ?thesis
    using assms by (simp add: score_defs complaint_keywords_def complaint_patterns_def del: of_char_Char)
next
  case chitchat
  then show ?thesis
    using assms by (simp add: score_defs chitchat_keywords_def chitchat_patterns_def del: of_char_Char)
next
  case off_topic
  then show ?thesis
    using assms by (simp add: score_defs off_topic_keywords_def off_topic_patterns_def del: of_char_Char)
next
  case violation
  then show ?thesis
    using assms by (simp add: score_defs violation_keywords_def violation_patterns_def del: of_char_Char)
qed

lemma trim_Nil: "trim [] = []"
  by (simp add: trim_def)

lemma length_trim: "length (trim s) \<le> length s"
proof -
  have "length (trim s) \<le> length (dropWhile isSpace s)"
    unfolding trim_def by (metis length_dropWhile_le length_rev)
  also have "\<dots> \<le> length s" by (rule length_dropWhile_le)
  finally show ?thesis .
qed

lemma score_of_scores:
  "i \<in> set is \<Longrightarrow> score_of (map (\<lambda>i. (i, f i)) is) i = f i"
  by (induction "is") (auto simp: score_of_def)

lemma violation_listed: "violation \<in> set INTENTS_values"
  by (simp add: INTENTS_values_def)

lemma trim_eval:
  "trim (u ''hi game'') = u ''hi game''" "trim (u ''ok'') = u ''ok''"
  "trim (u ''track order damn'') = u ''track order damn''"
  by (simp_all add: trim_def u_def isSpace_def ascii_units del: of_char_Char)

lemma toLowerCase_latin_Nil: "toLowerCase_latin [] = []"
  by (simp add: toLowerCase_latin_def)

lemma score_empty_latin: "calculateIntentScore toLowerCase_latin [] i = 0"
  using toLowerCase_latin_Nil by (rule score_empty)

text \<open>
  C2. Whenever the violation score of the (trimmed) input is positive, the classifier
  answers \<open>violation\<close>, whatever the other intents score. This holds for every
  lower-casing \<open>lower\<close> that maps the empty string to itself, as
  \<^verbatim>\<open>String.prototype.toLowerCase\<close> does, and so for inputs in every script.
\<close>

theorem violation_overrides_other_intents:
  assumes "lower [] = []"
    and "0 < calculateIntentScore lower (trim s) violation"
  shows "intent (classifyIntent lower (JString s)) = violation"
proof -
  have "s \<noteq> []"
    using assms by (auto simp: trim_Nil score_empty)
  then show ?thesis
    using assms(2)
    by (simp add: classifyIntent_def Let_def score_of_scores [OF violation_listed])
qed

lemma score_track_violation: "calculateIntentScore toLowerCase_latin (u ''track order damn'') violation = 2"
  by (simp add: score_defs violation_keywords_def violation_patterns_def ascii_units
      del: of_char_Char)

lemma score_track_order_status: "calculateIntentScore toLowerCase_latin (u ''track order damn'') order_status = 7"
  by (simp add: score_defs order_status_keywords_def order_status_patterns_def ascii_units
      del: of_char_Char)

text \<open>On "track order damn" the order status intent scores 7 and the violation intent 2;
  the answer is \<open>violation\<close>.\<close>

theorem violation_overrides_other_intents_witness:
  "calculateIntentScore toLowerCase_latin (trim (u ''track order damn'')) order_status = 7
   \<and> calculateIntentScore toLowerCase_latin (trim (u ''track order damn'')) violation = 2
   \<and> intent (classifyIntent toLowerCase_latin (JString (u ''track order damn''))) = violation"
  using violation_overrides_other_intents [of toLowerCase_latin "u ''track order damn''"]
  by (simp add: trim_eval score_track_violation score_track_order_status toLowerCase_latin_Nil)

text \<open>An input outside ASCII: in "suc" followed by the Kelvin sign (U+212A) the lower-cased
  text holds the keyword "suck", and the classifier answers \<open>violation\<close>.\<close>

lemma score_kelvin:
  "calculateIntentScore toLowerCase_latin [115, 117, 99, 8490] violation = 2"
  by (simp add: score_defs violation_keywords_def violation_patterns_def ascii_units
      del: of_char_Char)

lemma trim_kelvin: "trim [115, 117, 99, 8490] = [115, 117, 99, 8490]"
  by (simp add: trim_def isSpace_def)

lemma kelvin_intent:
  "intent (classifyIntent toLowerCase_latin (JString [115, 117, 99, 8490])) = violation"
  by (simp add: classifyIntent_def Let_def score_of_def trim_kelvin score_kelvin
      INTENTS_values_def)

lemma fold_best_step_zero:
  "\<forall>i\<in>set is. f i = 0 \<Longrightarrow> fold best_step (map (\<lambda>i. (i, f i)) is) b = b"
  by (induction "is" arbitrary: b) (auto simp: best_step_def)

text \<open>
  C6, as the code has it. A string that is not empty, shorter than 20 units and on which
  every intent scores 0 is classified as \<open>chitchat\<close> with confidence exactly one half,
  whatever the lower-casing \<open>lower\<close> is.
  (The empty string is refused before any scoring, see the counterexample below.)
\<close>

theorem short_unscored_input_is_chitchat:
  assumes "s \<noteq> []" and "length s < 20"
    and "\<forall>i\<in>set INTENTS_values. calculateIntentScore lower (trim s) i = 0"
  shows "intent (classifyIntent lower (JString s)) = chitchat
    \<and> confidence (classifyIntent lower (JString s)) = 1 / 2"
proof -
  have len: "length (trim s) < 20"
    using length_trim [of s] assms(2) by simp
  have v: "score_of (map (\<lambda>i. (i, calculateIntentScore lower (trim s) i)) INTENTS_values) violation = 0"
    using assms(3) by (simp add: score_of_scores [OF violation_listed] violation_listed)
  have b: "fold best_step (map (\<lambda>i. (i, calculateIntentScore lower (trim s) i)) INTENTS_values)
      (off_topic, 0) = (off_topic, 0)"
    using assms(3) by (rule fold_best_step_zero)
  show ?thesis
    using assms(1) len by (simp add: classifyIntent_def Let_def v b)
qed

lemma score_ok_policy_question: "calculateIntentScore toLowerCase_latin (u ''ok'') policy_question = 0"
  by (simp add: score_defs policy_question_keywords_def policy_question_patterns_def ascii_units
      del: of_char_Char)

lemma score_ok_order_status: "calculateIntentScore toLowerCase_latin (u ''ok'') order_status = 0"
  by (simp add: score_defs order_status_keywords_def order_status_patterns_def ascii_units
      del: of_char_Char)

lemma score_ok_product_search: "calculateIntentScore toLowerCase_latin (u ''ok'') product_search = 0"
  by (simp add: score_defs product_search_keywords_def product_search_patterns_def ascii_units
      del: of_char_Char)

lemma score_ok_complaint: "calculateIntentScore toLowerCase_latin (u ''ok'') complaint = 0"
  by (simp add: score_defs complaint_keywords_def complaint_patterns_def ascii_units
      del: of_char_Char)

lemma score_ok_chitchat: "calculateIntentScore toLowerCase_latin (u ''ok'') chitchat = 0"
  by (simp add: score_defs chitchat_keywords_def chitchat_patterns_def ascii_units
      del: of_char_Char)

lemma score_ok_off_topic: "calculateIntentScore toLowerCase_latin (u ''ok'') off_topic = 0"
  by (simp add: score_defs off_topic_keywords_def off_topic_patterns_def ascii_units
      del: of_char_Char)

lemma score_ok_violation: "calculateIntentScore toLowerCase_latin (u ''ok'') violation = 0"
  by (simp add: score_defs violation_keywords_def violation_patterns_def ascii_units
      del: of_char_Char)

lemmas ok_scores =
  score_ok_policy_question score_ok_order_status score_ok_product_search
  score_ok_complaint score_ok_chitchat score_ok_off_topic
  score_ok_violation

theorem short_unscored_input_is_chitchat_witness:
  "intent (classifyIntent toLowerCase_latin (JString (u ''ok''))) = chitchat
   \<and> confidence (classifyIntent toLowerCase_latin (JString (u ''ok''))) = 1 / 2"
proof -
  have "u ''ok'' \<noteq> []" and "length (u ''ok'') < 20"
    by (simp_all add: u_def)
  then show ?thesis
    using short_unscored_input_is_chitchat [of "u ''ok''" toLowerCase_latin]
    by (simp add: trim_eval ok_scores INTENTS_values_def)
qed

text \<open>
  C6 as stated includes the empty string. It is shorter than 20 units and scores 0 for
  every intent, but the guard at the head of \<open>classifyIntent\<close> answers \<open>off_topic\<close>
  with confidence 0 for it.
\<close>

theorem empty_input_is_not_chitchat:
  "length ([] :: jsstring) < 20
   \<and> map (calculateIntentScore toLowerCase_latin (trim [])) INTENTS_values = [0, 0, 0, 0, 0, 0, 0]
   \<and> intent (classifyIntent toLowerCase_latin (JString [])) = off_topic
   \<and> intent (classifyIntent toLowerCase_latin (JString [])) \<noteq> chitchat
   \<and> confidence (classifyIntent toLowerCase_latin (JString [])) = 0"
  by (simp add: trim_Nil score_empty_latin classifyIntent_def INTENTS_values_def
      invalid_input_def)

lemma first_highest_later:
  assumes "\<exists>i\<in>set xs. f x < f i"
  shows "first_highest f (x # xs) = first_highest f xs"
    and "Max (f ` set (x # xs)) = Max (f ` set xs)"
proof -
  from assms obtain i where i: "i \<in> set xs" "f x < f i" by blast
  have xs: "xs \<noteq> []" using i by auto
  have "f i \<le> Max (f ` set xs)" using i by simp
  then have lt: "f x < Max (f ` set xs)" using i(2) by linarith
  then show mx: "Max (f ` set (x # xs)) = Max (f ` set xs)"
    using xs by (simp add: max_def)
  show "first_highest f (x # xs) = first_highest f xs"
    using lt by (simp add: first_highest_def mx del: set_simps)
qed

lemma first_highest_head:
  assumes "\<forall>i\<in>set xs. f i \<le> f x"
  shows "first_highest f (x # xs) = x" and "Max (f ` set (x # xs)) = f x"
proof -
  show mx: "Max (f ` set (x # xs)) = f x"
    using assms by (auto intro!: Max_eqI)
  show "first_highest f (x # xs) = x"
    by (simp add: first_highest_def mx del: set_simps)
qed

text \<open>The loop that looks for the best intent returns the first entry with the highest
  score, provided some score exceeds the starting value.\<close>

lemma fold_best_step:
  "fold best_step (map (\<lambda>i. (i, f i)) xs) (b, n) =
     (if \<exists>i\<in>set xs. n < f i then (first_highest f xs, Max (f ` set xs)) else (b, n))"
proof (induction xs arbitrary: b n)
  case Nil
  then show ?case by simp
next
  case (Cons x xs)
  show ?case
  proof (cases "n < f x")
    case True
    then have step: "best_step (x, f x) (b, n) = (x, f x)"
      by (simp add: best_step_def)
    show ?thesis
    proof (cases "\<exists>i\<in>set xs. f x < f i")
      case later: True
      then show ?thesis
        using Cons.IH [of x "f x"] True step first_highest_later [OF later]
        by (simp del: set_simps) auto
    next
      case False
      then have le: "\<forall>i\<in>set xs. f i \<le> f x" by (auto simp: not_less)
      show ?thesis
        using Cons.IH [of x "f x"] True False step first_highest_head [OF le]
        by (simp del: set_simps) auto
    qed
  next
    case False
    then have step: "best_step (x, f x) (b, n) = (b, n)"
      by (simp add: best_step_def)
    show ?thesis
    proof (cases "\<exists>i\<in>set xs. n < f i")
      case True
      then have later: "\<exists>i\<in>set xs. f x < f i"
        using False by (meson leI le_less_trans)
      show ?thesis
        using Cons.IH [of b n] True step first_highest_later [OF later]
        by (simp del: set_simps) auto
    next
      case none: False
      then show ?thesis
        using Cons.IH [of b n] False step by auto
    qed
  qed
qed

text \<open>With a violation score of 0 and a positive maximum, the order of the code and the order
  of the specification single out the same intent.\<close>

lemma first_highest_orders:
  assumes "f violation = 0" and "0 < Max (f ` set declared_order)"
  shows "first_highest f INTENTS_values = first_highest f declared_order"
proof -
  have s: "set INTENTS_values = set declared_order"
    by (auto simp: INTENTS_values_def declared_order_def)
  have "f violation \<noteq> Max (f ` set declared_order)"
    using assms by simp
  then show ?thesis
    unfolding first_highest_def s
    by (simp add: INTENTS_values_def declared_order_def del: set_simps)
qed

text \<open>
  C8. When the violation score is 0 and the highest score is positive, the classifier
  answers the first intent, in the order policy question, order status, product search,
  complaint, chitchat, violation, off topic, among those with the highest score; in
  particular when two or more intents tie there. This holds for every lower-casing
  \<open>lower\<close> that maps the empty string to itself.
\<close>

theorem ties_resolve_in_declared_order:
  assumes "lower [] = []"
    and "calculateIntentScore lower (trim s) violation = 0"
    and "0 < Max (calculateIntentScore lower (trim s) ` set declared_order)"
  shows "intent (classifyIntent lower (JString s))
    = first_highest (calculateIntentScore lower (trim s)) declared_order"
proof -
  let ?f = "calculateIntentScore lower (trim s)"
  have set_eq: "set INTENTS_values = set declared_order"
    by (auto simp: INTENTS_values_def declared_order_def)
  have nonempty: "s \<noteq> []"
  proof
    assume "s = []"
    then have "?f ` set declared_order = {0}"
      using assms(1) by (auto simp: trim_Nil score_empty declared_order_def)
    then show False using assms(3) by simp
  qed
  have "Max (?f ` set declared_order) \<in> ?f ` set declared_order"
    by (intro Max_in) (auto simp: declared_order_def)
  then have ex: "\<exists>i\<in>set INTENTS_values. 0 < ?f i"
    using assms(3) unfolding set_eq by auto
  have best: "fold best_step (map (\<lambda>i. (i, ?f i)) INTENTS_values) (off_topic, 0)
      = (first_highest ?f declared_order, Max (?f ` set declared_order))"
    using ex first_highest_orders [OF assms(2,3)] by (simp add: fold_best_step set_eq)
  have v: "score_of (map (\<lambda>i. (i, ?f i)) INTENTS_values) violation = 0"
    using assms(2) by (simp add: score_of_scores [OF violation_listed])
  show ?thesis
    using nonempty assms(3) by (simp add: classifyIntent_def Let_def v best)
qed

lemma score_hi_game_policy_question: "calculateIntentScore toLowerCase_latin (u ''hi game'') policy_question = 0"
  by (simp add: score_defs policy_question_keywords_def policy_question_patterns_def ascii_units
      del: of_char_Char)

lemma score_hi_game_order_status: "calculateIntentScore toLowerCase_latin (u ''hi game'') order_status = 0"
  by (simp add: score_defs order_status_keywords_def order_status_patterns_def ascii_units
      del: of_char_Char)

lemma score_hi_game_product_search: "calculateIntentScore toLowerCase_latin (u ''hi game'') product_search = 0"
  by (simp add: score_defs product_search_keywords_def product_search_patterns_def ascii_units
      del: of_char_Char)

lemma score_hi_game_complaint: "calculateIntentScore toLowerCase_latin (u ''hi game'') complaint = 0"
  by (simp add: score_defs complaint_keywords_def complaint_patterns_def ascii_units
      del: of_char_Char)

lemma score_hi_game_chitchat: "calculateIntentScore toLowerCase_latin (u ''hi game'') chitchat = 2"
  by (simp add: score_defs chitchat_keywords_def chitchat_patterns_def ascii_units
      del: of_char_Char)

lemma score_hi_game_off_topic: "calculateIntentScore toLowerCase_latin (u ''hi game'') off_topic = 2"
  by (simp add: score_defs off_topic_keywords_def off_topic_patterns_def ascii_units
      del: of_char_Char)

lemma score_hi_game_violation: "calculateIntentScore toLowerCase_latin (u ''hi game'') violation = 0"
  by (simp add: score_defs violation_keywords_def violation_patterns_def ascii_units
      del: of_char_Char)

lemmas hi_game_scores =
  score_hi_game_policy_question score_hi_game_order_status score_hi_game_product_search
  score_hi_game_complaint score_hi_game_chitchat score_hi_game_off_topic
  score_hi_game_violation

text \<open>On "hi game" chitchat and off topic tie at 2, every other intent scores 0, and the
  answer is \<open>chitchat\<close>.\<close>

theorem ties_resolve_in_declared_order_witness:
  "calculateIntentScore toLowerCase_latin (trim (u ''hi game'')) chitchat = 2
   \<and> calculateIntentScore toLowerCase_latin (trim (u ''hi game'')) off_topic = 2
   \<and> intent (classifyIntent toLowerCase_latin (JString (u ''hi game''))) = chitchat"
  using ties_resolve_in_declared_order [of toLowerCase_latin "u ''hi game''"]
  by (simp add: trim_eval hi_game_scores declared_order_def first_highest_def
      toLowerCase_latin_Nil)

section \<open>The function registry: properties\<close>




text \<open>The registry of \<open>getStorePolicy\<close>, called with \<^verbatim>\<open>{}\<close>, with a category that names
  no policy, and under a name that is not registered.\<close>

lemma registered: "store_registry lower (u ''getStorePolicy'')
    = Some \<lparr>required = Some [u ''category''], handler = getStorePolicy lower\<rparr>"
  by (simp add: store_registry_def)





text \<open>A category that names a property inherited from \<^verbatim>\<open>Object.prototype\<close> is
  found by the lookup, and the call succeeds.\<close>

lemma constructor_is_inherited:
  "execute (store_registry toLowerCase_latin) (u ''getStorePolicy'')
     (object_literal [(u ''category'', JString (u ''Constructor''))])
   = Inr \<lparr>success = True, result = Some (Inherited (u ''constructor'')), error = None,
          function_name = u ''getStorePolicy''\<rparr>"
proof -
  have "getStorePolicy toLowerCase_latin
      (object_literal [(u ''category'', JString (u ''Constructor''))])
    = Inr (Inherited (u ''constructor''))"
    by (simp add: getStorePolicy_def object_literal_def)
      (simp add: policies_def Object_prototype_def u_def unit_defs)
  then show ?thesis
    by (simp add: execute_def registered try_body_def object_literal_def)
qed



section \<open>Query expansion: properties\<close>

lemma fold_expand_key_none:
  "\<forall>entry\<in>set dict. \<forall>word\<in>set (snd entry).
      \<not> str_includes (lower text) (lower word) \<Longrightarrow>
   fold (expand_key lower text) dict additions = additions"
  by (induction dict arbitrary: additions) (auto simp: expand_key_def list_ex_iff)

lemma fold_set_add_hints:
  "fold set_add english_hints [] = english_hints"
  "fold set_add arabic_hints [] = arabic_hints"
  by (simp_all add: english_hints_def arabic_hints_def set_add_def u_def)

lemma length_hints: "length english_hints = 3" "length arabic_hints = 3"
  by (simp_all add: english_hints_def arabic_hints_def)

text \<open>
  C7, as the code has it. When no synonym of the text's language occurs in the text, both
  lower-cased (the empty string is such a text), the expansion is the text followed by the
  three hint phrases of the other language, four elements in all. For every text the
  expansion starts with the text and has at most 12 elements; nothing in it can raise.
  This holds whatever the lower-casing \<open>lower\<close> is.
\<close>

theorem expandQuery_adds_the_hints:
  "((\<forall>entry\<in>set (synonyms (detectLanguage text)). \<forall>word\<in>set (snd entry).
        \<not> str_includes (lower text) (lower word)) \<longrightarrow>
      expandQuery lower text
        = text # (if detectLanguage text = ar then english_hints else arabic_hints)
      \<and> length (expandQuery lower text) = 4)
   \<and> expandQuery lower text \<noteq> [] \<and> hd (expandQuery lower text) = text
   \<and> length (expandQuery lower text) \<le> 12"
proof (intro conjI impI)
  assume none: "\<forall>entry\<in>set (synonyms (detectLanguage text)). \<forall>word\<in>set (snd entry).
        \<not> str_includes (lower text) (lower word)"
  show eq: "expandQuery lower text
      = text # (if detectLanguage text = ar then english_hints else arabic_hints)"
    by (simp add: expandQuery_def Let_def fold_expand_key_none [OF none] fold_set_add_hints
        length_hints)
  show "length (expandQuery lower text) = 4"
    by (simp add: eq length_hints)
qed (simp_all add: expandQuery_def Let_def)

lemma detectLanguage_empty: "detectLanguage [] = en"
  by (simp add: detectLanguage_def isArabic_def re_test_def arabicPattern_def)

lemma no_synonym_in_empty:
  "\<forall>entry\<in>set (synonyms en). \<forall>word\<in>set (snd entry).
      \<not> str_includes (toLowerCase_latin []) (toLowerCase_latin word)"
  by (simp add: synonyms_def synonyms_en_def u_def unit_defs)

theorem expandQuery_adds_the_hints_witness:
  "expandQuery toLowerCase_latin [] = [] # arabic_hints
   \<and> length (expandQuery toLowerCase_latin []) = 4"
  using expandQuery_adds_the_hints [of "[]" toLowerCase_latin] no_synonym_in_empty
  by (simp add: detectLanguage_empty length_hints)

text \<open>
  C7 as stated says that the empty string expands to the single-element list of the empty
  string. The cross-lingual hints are added for every input, so the list has four elements.
\<close>

theorem expandQuery_of_empty_string_has_four_elements:
  "length (expandQuery toLowerCase_latin []) = 4 \<and> expandQuery toLowerCase_latin [] \<noteq> [[]]"
proof -
  have e: "expandQuery toLowerCase_latin [] = [] # arabic_hints"
    by (simp add: expandQuery_def Let_def detectLanguage_empty
        fold_expand_key_none [OF no_synonym_in_empty] fold_set_add_hints length_hints)
  show ?thesis
    using length_hints(2) by (auto simp: e)
qed

section \<open>Citations: properties\<close>

lemma startsWith_one: "startsWith s [k] = (\<exists>t. s = k # t)"
  by (cases s) auto

lemma cls_alnum_dot: "cls_has False alnum_dot c = isAlnumDot c"
  by (auto simp: alnum_dot_def isAlnumDot_def unit_defs)

lemma cls_letters: "cls_has False letters c = isLetter c"
  by (auto simp: letters_def isLetter_def unit_defs)

lemma cls_word_dot: "cls_has False word_dot c = isWordDot c"
  by (auto simp: word_dot_def isWordDot_def unit_defs)

lemma rmatch_close:
  "rmatch False (Lit [93]) p s = (case s of [] \<Rightarrow> [] | c # cs \<Rightarrow> if c = 93 then [(Some 93, cs)] else [])"
  by (cases s) (auto simp: unit_eq_def)

lemma rmatch_open:
  "rmatch False (Lit [91]) p s = (case s of [] \<Rightarrow> [] | c # cs \<Rightarrow> if c = 91 then [(Some 91, cs)] else [])"
  by (cases s) (auto simp: unit_eq_def)

text \<open>A greedy repetition followed by the closing bracket, which is not of the repeated
  class: the only way through is to take the whole run.\<close>

lemma reps_then_close:
  assumes "\<not> cls_has False k 93"
  shows "concat (map (\<lambda>q. rmatch False (Lit [93]) (fst q) (snd q)) (reps False k n p s)) =
     (if n \<le> length (takeWhile (cls_has False k) s)
         \<and> startsWith (dropWhile (cls_has False k) s) [93]
      then [(Some 93, tl (dropWhile (cls_has False k) s))] else [])"
proof (induction s arbitrary: n p)
  case Nil
  then show ?case by (simp add: rmatch_close unit_eq_def)
next
  case (Cons c cs)
  show ?case
  proof (cases "cls_has False k c")
    case True
    then have "c \<noteq> 93" using assms by auto
    then show ?thesis
      using True Cons.IH [of "n - 1" "Some c"] by (auto simp: rmatch_close unit_eq_def)
  next
    case False
    then show ?thesis by (auto simp: rmatch_close unit_eq_def)
  qed
qed


text \<open>The match of the pattern of \<open>LLMIntegration\<close> that starts at a position.\<close>

lemma first_match_LLM:
  "first_match LLMIntegration_citationPattern p s =
     (case citation_at s of
        None \<Rightarrow> None
      | Some tok \<Rightarrow> Some (Some 93, drop (length tok + 2) s))"
proof (cases s)
  case Nil
  then show ?thesis
    by (simp add: first_match_def LLMIntegration_citationPattern_def citation_at_def)
next
  case (Cons c cs)
  have nb: "\<not> cls_has False alnum_dot 93"
    by (simp add: cls_alnum_dot isAlnumDot_def unit_defs)
  have split: "cs = takeWhile isAlnumDot cs @ dropWhile isAlnumDot cs"
    by simp
  have tl_drop: "tl (dropWhile isAlnumDot cs) = drop (Suc (length (takeWhile isAlnumDot cs))) cs"
    by (metis split append_eq_conv_conj drop_Suc drop_tl tl_drop)
  have cls: "cls_has False alnum_dot = isAlnumDot"
    by (rule ext) (rule cls_alnum_dot)
  show ?thesis
    using reps_then_close [OF nb, of 1 "Some 91" cs] tl_drop
    by (auto simp: Cons first_match_def LLMIntegration_citationPattern_def citation_at_def
        cls unit_eq_def Suc_le_eq split: list.splits)
qed


text \<open>Inside a citation no other citation starts: its units are not opening brackets.\<close>

lemma tokens_by_skip:
  assumes "\<And>s tok. token_at s = Some tok \<Longrightarrow> \<exists>rest. s = 91 # tok @ 93 # rest \<and> 91 \<notin> set tok"
    and "91 \<notin> set xs"
  shows "tokens_by token_at (xs @ ys) = tokens_by token_at ys"
  using assms(2)
proof (induction xs)
  case Nil
  then show ?case by simp
next
  case (Cons x xs)
  have "token_at (x # xs @ ys) = None"
  proof (cases "token_at (x # xs @ ys)")
    case (Some tok)
    with assms(1) [OF Some] Cons.prems show ?thesis by auto
  qed simp
  with Cons show ?case by simp
qed

lemma unbracket_citation: "unbracket (91 # tok @ [93]) = tok"
  by (simp add: unbracket_def butlast_append)

text \<open>
  The scan with a global pattern, for a pattern whose match at a position is the bracketed
  token that \<open>token_at\<close> finds there: it collects what \<open>tokens_by\<close> collects.
\<close>

lemma match_all_tokens:
  assumes fm: "\<And>p s. first_match pat p s =
      (case token_at s of None \<Rightarrow> None | Some tok \<Rightarrow> Some (Some 93, drop (length tok + 2) s))"
    and shape: "\<And>s tok. token_at s = Some tok \<Longrightarrow>
      \<exists>rest. s = 91 # tok @ 93 # rest \<and> 91 \<notin> set tok"
  shows "map unbracket (match_all pat p s) = tokens_by token_at s"
proof (induction "length s" arbitrary: s p rule: less_induct)
  case less
  show ?case
  proof (cases "token_at s")
    case None
    show ?thesis
    proof (cases s)
      case Nil
      with None show ?thesis
        by (subst match_all.simps) (simp add: fm)
    next
      case (Cons c cs)
      have "map unbracket (match_all pat (Some c) cs) = tokens_by token_at cs"
        using less [of cs "Some c"] Cons by simp
      with None Cons show ?thesis
        by (subst match_all.simps) (simp add: fm)
    qed
  next
    case (Some tok)
    from shape [OF Some] obtain rest where s: "s = 91 # tok @ 93 # rest" and nb: "91 \<notin> set tok"
      by blast
    have d: "drop (length tok + 2) s = rest"
      by (simp add: s)
    have t: "take (length tok + 2) s = 91 # tok @ [93]"
      by (simp add: s)
    have ih: "map unbracket (match_all pat (Some 93) rest) = tokens_by token_at rest"
      using less [of rest "Some 93"] by (simp add: s)
    have fmq: "first_match pat p s = Some (Some 93, rest)"
      using d by (simp add: fm Some)
    have m: "match_all pat p s = (91 # tok @ [93]) # match_all pat (Some 93) rest"
      by (subst match_all.simps) (simp only: fmq option.case Let_def snd_conv fst_conv, simp add: s)
    have "tokens_by token_at s = tok # tokens_by token_at ((tok @ [93]) @ rest)"
      using Some by (simp add: s)
    also have "tokens_by token_at ((tok @ [93]) @ rest) = tokens_by token_at rest"
      by (rule tokens_by_skip [OF shape]) (use nb in auto)
    finally show ?thesis
      by (simp add: m ih unbracket_citation)
  qed
qed

lemma citation_at_shape:
  assumes "citation_at s = Some tok"
  shows "\<exists>rest. s = 91 # tok @ 93 # rest \<and> 91 \<notin> set tok"
proof -
  from assms obtain cs where s: "s = 91 # cs" and tok: "tok = takeWhile isAlnumDot cs"
    and st: "startsWith (dropWhile isAlnumDot cs) [93]"
    by (auto simp: citation_at_def split: list.splits if_splits)
  from st obtain rest where r: "dropWhile isAlnumDot cs = 93 # rest"
    by (auto simp: startsWith_one)
  have "cs = tok @ 93 # rest"
    using takeWhile_dropWhile_id [of isAlnumDot cs] by (simp add: tok r)
  moreover have "91 \<notin> set tok"
    using set_takeWhileD [of 91 isAlnumDot cs] by (auto simp: tok isAlnumDot_def unit_defs)
  ultimately show ?thesis using s by simp
qed

lemma LLM_scan:
  "map unbracket (match_all LLMIntegration_citationPattern p s) = citations_in s"
  unfolding citations_in_def
  by (rule match_all_tokens [OF first_match_LLM citation_at_shape])


text \<open>A \<open>Set\<close> built from a list holds the first occurrences.\<close>

lemma fold_set_add:
  "fold set_add xs members = members @ first_occurrences (filter (\<lambda>x. x \<notin> set members) xs)"
proof (induction xs arbitrary: members)
  case Nil
  then show ?case by simp
next
  case (Cons x xs)
  show ?case
  proof (cases "x \<in> set members")
    case True
    then have "set_add x members = members"
      by (simp add: set_add_def)
    then show ?thesis
      using True by (simp add: Cons.IH)
  next
    case False
    then have a: "set_add x members = members @ [x]"
      by (simp add: set_add_def)
    have "filter (\<lambda>y. y \<notin> set (members @ [x])) xs
        = filter (\<lambda>y. y \<noteq> x) (filter (\<lambda>y. y \<notin> set members) xs)"
      by (induction xs) auto
    then show ?thesis
      using False by (simp add: Cons.IH a)
  qed
qed

lemma new_Set_first_occurrences: "new_Set xs = first_occurrences xs"
  by (simp add: new_Set_def fold_set_add)

lemma set_first_occurrences: "set (first_occurrences xs) = set xs"
  by (induction xs rule: first_occurrences.induct) auto

lemma distinct_first_occurrences: "distinct (first_occurrences xs)"
  by (induction xs rule: first_occurrences.induct) (auto simp: set_first_occurrences)

text \<open>What \<open>citations_in\<close> collects are the tokens of the substrings of the text that are
  an opening bracket, one or more letters, digits or dots, and a closing bracket.\<close>

lemma citation_at_iff:
  "citation_at s = Some tok \<longleftrightarrow>
     (\<exists>post. s = [91] @ tok @ [93] @ post \<and> tok \<noteq> [] \<and> (\<forall>c\<in>set tok. isAlnumDot c))"
proof
  assume a: "citation_at s = Some tok"
  then obtain cs where s: "s = 91 # cs" and tok: "tok = takeWhile isAlnumDot cs"
    and ne: "tok \<noteq> []" and st: "startsWith (dropWhile isAlnumDot cs) [93]"
    by (auto simp: citation_at_def split: list.splits if_splits)
  from st obtain post where r: "dropWhile isAlnumDot cs = 93 # post"
    by (auto simp: startsWith_one)
  have "cs = tok @ 93 # post"
    using takeWhile_dropWhile_id [of isAlnumDot cs] by (simp add: tok r)
  moreover have "\<forall>c\<in>set tok. isAlnumDot c"
    using set_takeWhileD [of _ isAlnumDot cs] by (auto simp: tok)
  ultimately show "\<exists>post. s = [91] @ tok @ [93] @ post \<and> tok \<noteq> [] \<and> (\<forall>c\<in>set tok. isAlnumDot c)"
    using s ne by auto
next
  assume "\<exists>post. s = [91] @ tok @ [93] @ post \<and> tok \<noteq> [] \<and> (\<forall>c\<in>set tok. isAlnumDot c)"
  then obtain post where s: "s = 91 # tok @ 93 # post" and ne: "tok \<noteq> []"
    and al: "\<forall>c\<in>set tok. isAlnumDot c"
    by auto
  have nb: "\<not> isAlnumDot 93" by (simp add: isAlnumDot_def unit_defs)
  have "takeWhile isAlnumDot (tok @ 93 # post) = tok"
    using al nb by simp
  moreover have "dropWhile isAlnumDot (tok @ 93 # post) = 93 # post"
    using al nb by simp
  ultimately show "citation_at s = Some tok"
    using ne by (simp add: s citation_at_def)
qed

lemma set_tokens_by:
  assumes "token_at [] = None"
  shows "set (tokens_by token_at s)
    = {tok. \<exists>pre. \<exists>post. s = pre @ post \<and> token_at post = Some tok}"
proof (induction s)
  case Nil
  then show ?case by (simp add: assms)
next
  case (Cons c cs)
  have "{tok. \<exists>pre post. c # cs = pre @ post \<and> token_at post = Some tok}
      = {tok. token_at (c # cs) = Some tok}
        \<union> {tok. \<exists>pre post. cs = pre @ post \<and> token_at post = Some tok}"
    by (auto simp: Cons_eq_append_conv)
  then show ?case
    using Cons.IH by (auto split: option.splits)
qed

lemma set_citations_in:
  "set (citations_in text) =
     {tok. \<exists>pre post. text = pre @ [91] @ tok @ [93] @ post
        \<and> tok \<noteq> [] \<and> (\<forall>c\<in>set tok. isAlnumDot c)}"
proof -
  have "citation_at [] = None"
    by (simp add: citation_at_def)
  from set_tokens_by [of citation_at "text", OF this] show ?thesis
    unfolding citations_in_def citation_at_iff by auto
qed

text \<open>The pattern of the citation validator has two repetitions in a row. Whatever the
  first one leaves to the second, the match ends behind the same closing bracket.\<close>

lemma reps_suffixes:
  "q \<in> set (reps False k n p s) \<Longrightarrow>
   \<exists>j. n \<le> j \<and> j \<le> length (takeWhile (cls_has False k) s) \<and> snd q = drop j s"
proof (induction s arbitrary: n p)
  case Nil
  then show ?case by (auto split: if_splits)
next
  case (Cons c cs)
  show ?case
  proof (cases "q \<in> set (reps False k (n - 1) (Some c) cs) \<and> cls_has False k c")
    case True
    from Cons.IH [of "n - 1" "Some c"] True obtain j where
      "n - 1 \<le> j" "j \<le> length (takeWhile (cls_has False k) cs)" "snd q = drop j cs"
      by blast
    then show ?thesis
      using True by (intro exI [of _ "Suc j"]) auto
  next
    case False
    then have "n = 0" "q = (p, c # cs)"
      using Cons.prems by (auto split: if_splits)
    then show ?thesis by (intro exI [of _ 0]) auto
  qed
qed

lemma reps_nonempty:
  "(reps False k n p s \<noteq> []) = (n \<le> length (takeWhile (cls_has False k) s))"
proof (induction s arbitrary: n p)
  case Nil
  then show ?case by simp
next
  case (Cons c cs)
  then show ?case by (cases n) auto
qed

lemma dropWhile_drop_run:
  assumes "\<And>c. L c \<Longrightarrow> W c"
  shows "j \<le> length (takeWhile L s) \<Longrightarrow> dropWhile W (drop j s) = dropWhile W s"
proof (induction s arbitrary: j)
  case Nil
  then show ?case by simp
next
  case (Cons c cs)
  show ?case
  proof (cases j)
    case 0
    then show ?thesis by simp
  next
    case (Suc j')
    with Cons.prems have "L c" and "j' \<le> length (takeWhile L cs)"
      by (auto split: if_splits)
    then show ?thesis
      using Suc Cons.IH [of j'] assms by simp
  qed
qed

lemma first_of_constant_branches:
  "\<forall>q\<in>set R. f q = X \<Longrightarrow>
   (case concat (map f R) of [] \<Rightarrow> None | q # qs \<Rightarrow> Some q) =
     (if R = [] then None else case X of [] \<Rightarrow> None | q # qs \<Rightarrow> Some q)"
proof (induction R)
  case Nil
  then show ?case by simp
next
  case (Cons r R)
  then show ?case by (cases X) (auto split: list.splits)
qed

lemma letter_is_word: "isLetter c \<Longrightarrow> isWordDot c"
  by (auto simp: isLetter_def isWordDot_def isWordChar_def)

lemma first_match_validator:
  "first_match citationPattern p s =
     (case policy_citation_at s of
        None \<Rightarrow> None
      | Some tok \<Rightarrow> Some (Some 93, drop (length tok + 2) s))"
proof (cases s)
  case Nil
  then show ?thesis
    by (simp add: first_match_def citationPattern_def policy_citation_at_def)
next
  case (Cons c cs)
  have nb: "\<not> cls_has False word_dot 93"
    by (simp add: cls_word_dot isWordDot_def unit_defs)
  have clsW: "cls_has False word_dot = isWordDot"
    by (rule ext) (rule cls_word_dot)
  have clsL: "cls_has False letters = isLetter"
    by (rule ext) (rule cls_letters)
  let ?X = "if startsWith (dropWhile isWordDot cs) [93]
            then [(Some 93, tl (dropWhile isWordDot cs))] else []"
  let ?inner = "\<lambda>q. rmatch False (Cat (Rep word_dot 0) (Lit [93])) (fst q) (snd q)"
  let ?R = "reps False letters 1 (Some 91) cs"
  have const: "\<forall>q\<in>set ?R. ?inner q = ?X"
  proof
    fix q assume "q \<in> set ?R"
    from reps_suffixes [OF this] obtain j where
      j: "j \<le> length (takeWhile isLetter cs)" "snd q = drop j cs"
      by (auto simp: clsL)
    have "dropWhile isWordDot (snd q) = dropWhile isWordDot cs"
      unfolding j(2) by (rule dropWhile_drop_run [OF letter_is_word j(1)])
    then show "?inner q = ?X"
      using reps_then_close [OF nb, of 0 "fst q" "snd q"] by (simp add: clsW)
  qed
  have ne: "(?R \<noteq> []) = (case cs of [] \<Rightarrow> False | d # ds \<Rightarrow> isLetter d)"
    by (simp add: reps_nonempty clsL Suc_le_eq split: list.splits)
  have split: "cs = takeWhile isWordDot cs @ dropWhile isWordDot cs"
    by simp
  have tl_drop: "tl (dropWhile isWordDot cs) = drop (Suc (length (takeWhile isWordDot cs))) cs"
    by (metis split append_eq_conv_conj drop_Suc drop_tl tl_drop)
  have "first_match citationPattern p (91 # cs) =
      (case concat (map ?inner ?R) of [] \<Rightarrow> None | q # qs \<Rightarrow> Some q)"
    by (simp add: first_match_def citationPattern_def unit_eq_def)
  also have "\<dots> = (if ?R = [] then None else case ?X of [] \<Rightarrow> None | q # qs \<Rightarrow> Some q)"
    by (rule first_of_constant_branches [OF const])
  finally have open_bracket: "first_match citationPattern p (91 # cs) =
      (if ?R = [] then None else case ?X of [] \<Rightarrow> None | q # qs \<Rightarrow> Some q)" .
  show ?thesis
  proof (cases "c = 91")
    case True
    show ?thesis
      using ne tl_drop
      by (auto simp: Cons True open_bracket policy_citation_at_def split: list.splits)
  next
    case False
    then show ?thesis
      by (simp add: Cons first_match_def citationPattern_def policy_citation_at_def unit_eq_def)
  qed
qed

lemma policy_citation_at_shape:
  assumes "policy_citation_at s = Some tok"
  shows "\<exists>rest. s = 91 # tok @ 93 # rest \<and> 91 \<notin> set tok"
proof -
  from assms obtain cs where s: "s = 91 # cs" and tok: "tok = takeWhile isWordDot cs"
    and st: "startsWith (dropWhile isWordDot cs) [93]"
    by (auto simp: policy_citation_at_def split: list.splits if_splits)
  from st obtain rest where r: "dropWhile isWordDot cs = 93 # rest"
    by (auto simp: startsWith_one)
  have "cs = tok @ 93 # rest"
    using takeWhile_dropWhile_id [of isWordDot cs] by (simp add: tok r)
  moreover have "91 \<notin> set tok"
    using set_takeWhileD [of 91 isWordDot cs] by (auto simp: tok isWordDot_def unit_defs)
  ultimately show ?thesis using s by simp
qed

lemma extractCitations_scan:
  "extractCitations responseText = tokens_by policy_citation_at responseText"
  unfolding extractCitations_def
  by (rule match_all_tokens [OF first_match_validator policy_citation_at_shape])


text \<open>
  C5, for the method of \<open>LLMIntegration\<close>. Its \<open>extractCitations\<close> returns the
  tokens of the substrings of the text that are an opening bracket, one or more letters,
  digits or dots and a closing bracket: every such token and nothing else, without
  repetitions, in the order of first occurrence. (The function of the same name in the
  citation validator collects the tokens of its own pattern, position by position, and keeps
  repetitions.)
\<close>

theorem LLMIntegration_extractCitations_spec:
  "LLMIntegration_extractCitations text = first_occurrences (citations_in text)
   \<and> distinct (LLMIntegration_extractCitations text)
   \<and> set (LLMIntegration_extractCitations text) =
       {tok. \<exists>pre post. text = pre @ [91] @ tok @ [93] @ post
          \<and> tok \<noteq> [] \<and> (\<forall>c\<in>set tok. isAlnumDot c)}
   \<and> extractCitations text = tokens_by policy_citation_at text"
  by (simp add: LLMIntegration_extractCitations_def LLM_scan new_Set_first_occurrences
      distinct_first_occurrences set_first_occurrences set_citations_in extractCitations_scan)


lemmas citation_eval = citations_in_def citation_at_def policy_citation_at_def isAlnumDot_def
  isLetter_def isWordDot_def unit_defs u_def

theorem LLMIntegration_extractCitations_spec_witness:
  "LLMIntegration_extractCitations (u ''see [P1.2], [7] and [P1.2]'') = [u ''P1.2'', u ''7'']"
  using LLMIntegration_extractCitations_spec [of "u ''see [P1.2], [7] and [P1.2]''"]
  by (simp add: citation_eval)

text \<open>
  C5 as stated does not hold for \<open>extractCitations\<close> of the citation validator: on
  "[7] [A] [A]" it returns A twice and misses 7, where the claim asks for 7 and A.
\<close>

theorem extractCitations_keeps_repetitions:
  "extractCitations (u ''[7] [A] [A]'') = [u ''A'', u ''A'']
   \<and> first_occurrences (citations_in (u ''[7] [A] [A]'')) = [u ''7'', u ''A'']"
  by (simp add: extractCitations_scan citation_eval)

text \<open>The citations are all valid when each of them is the id of an entry.\<close>

lemma snd_validate_step:
  "snd (validate_step kb c acc)
     = (if c \<in> entry_id ` set kb then snd acc else snd acc @ [c])"
proof (cases "find (\<lambda>p. entry_id p = c) kb")
  case None
  then have "c \<notin> entry_id ` set kb"
    by (auto simp: find_None_iff)
  with None show ?thesis
    by (simp add: validate_step_def)
next
  case (Some found)
  then have "c \<in> entry_id ` set kb"
    by (metis (mono_tags, lifting) find_Some_iff image_eqI nth_mem)
  with Some show ?thesis
    by (simp add: validate_step_def)
qed

lemma fold_validate_step:
  "snd (fold (validate_step kb) citations acc)
     = snd acc @ filter (\<lambda>c. c \<notin> entry_id ` set kb) citations"
proof (induction citations arbitrary: acc)
  case Nil
  then show ?case by simp
next
  case (Cons c cs)
  show ?case
    using Cons.IH [of "validate_step kb c acc"] by (simp add: snd_validate_step)
qed

lemma isValid_iff:
  "isValid (validateCitations kb citations) = (set citations \<subseteq> entry_id ` set kb)"
  by (auto simp: validateCitations_def Let_def fold_validate_step filter_empty_conv)

lemma policy_citation_at_before_space:
  "policy_citation_at ((c # cs) @ 32 # t) = policy_citation_at (c # cs)"
proof -
  have ns: "\<not> isWordDot 32" "\<not> isLetter 32"
    by (simp_all add: isWordDot_def isLetter_def unit_defs)
  have first: "(case cs @ 32 # t of [] \<Rightarrow> False | d # ds \<Rightarrow> isLetter d)
      = (case cs of [] \<Rightarrow> False | d # ds \<Rightarrow> isLetter d)"
    using ns by (cases cs) simp_all
  show ?thesis
  proof (cases "\<forall>x\<in>set cs. isWordDot x")
    case True
    have a: "dropWhile isWordDot (cs @ 32 # t) = 32 # t" and b: "dropWhile isWordDot cs = []"
      using True ns by simp_all
    have "\<not> startsWith (dropWhile isWordDot (cs @ 32 # t)) [93]"
      unfolding a by simp
    moreover have "\<not> startsWith (dropWhile isWordDot cs) [93]"
      unfolding b by simp
    ultimately show ?thesis
      by (simp add: policy_citation_at_def)
  next
    case False
    then obtain x where x: "x \<in> set cs" "\<not> isWordDot x"
      by blast
    have a: "takeWhile isWordDot (cs @ 32 # t) = takeWhile isWordDot cs"
      using x by (simp add: takeWhile_append1 [where P = isWordDot])
    have b: "dropWhile isWordDot (cs @ 32 # t) = dropWhile isWordDot cs @ 32 # t"
      using x by (simp add: dropWhile_append1 [where P = isWordDot])
    have ne: "dropWhile isWordDot cs \<noteq> []"
      using x by auto
    from ne obtain d ds where d: "dropWhile isWordDot cs = d # ds"
      by (cases "dropWhile isWordDot cs") auto
    have "startsWith (dropWhile isWordDot (cs @ 32 # t)) [93]
        = startsWith (dropWhile isWordDot cs) [93]"
      by (simp add: b d)
    then show ?thesis
      using first by (simp add: policy_citation_at_def a)
  qed
qed

lemma tokens_by_before_space:
  "tokens_by policy_citation_at (xs @ 32 # t)
     = tokens_by policy_citation_at xs @ tokens_by policy_citation_at (32 # t)"
proof (induction xs)
  case Nil
  then show ?case by simp
next
  case (Cons x xs)
  show ?case
    using policy_citation_at_before_space [of x xs t] Cons.IH
    by (simp split: option.splits)
qed

lemma tokens_by_appended_id:
  assumes "is_policy_id tok"
  shows "tokens_by policy_citation_at (32 # 91 # tok @ [93]) = [tok]"
proof -
  have all: "\<forall>c\<in>set tok. isWordDot c" and ne: "tok \<noteq> []" and l: "isLetter (hd tok)"
    using assms by (auto simp: is_policy_id_def list_all_iff)
  have nb: "\<not> isWordDot 93" "\<not> isWordDot 91"
    by (simp_all add: isWordDot_def unit_defs)
  have "takeWhile isWordDot (tok @ [93]) = tok" "dropWhile isWordDot (tok @ [93]) = [93]"
    using all nb by simp_all
  then have here: "policy_citation_at (91 # tok @ [93]) = Some tok"
    using ne l by (cases tok) (auto simp: policy_citation_at_def)
  have "91 \<notin> set (tok @ [93])"
    using all nb by auto
  from tokens_by_skip [where ys = "[]", OF policy_citation_at_shape this]
  have "tokens_by policy_citation_at (tok @ [93]) = []"
    by simp
  moreover have "policy_citation_at (32 # 91 # tok @ [93]) = None"
    by (simp add: policy_citation_at_def)
  ultimately show ?thesis
    using here by simp
qed

text \<open>
  C1, as the code has it. Take an answer whose own citations are all valid, and an entry of
  the knowledge base whose id has the shape of a citation token (a letter, then letters,
  digits, underscores or dots). The citations of the answer followed by a space and the
  bracketed id are those of the answer and then the id, and they are all valid.
\<close>

theorem appended_citation_is_valid:
  assumes "isValid (validateCitations kb (extractCitations answer))"
    and "e \<in> set kb" and "is_policy_id (entry_id e)"
  shows "extractCitations (answer @ u '' ['' @ entry_id e @ u '']'')
      = extractCitations answer @ [entry_id e]
    \<and> isValid (validateCitations kb
        (extractCitations (answer @ u '' ['' @ entry_id e @ u '']'')))"
proof -
  have appended: "answer @ u '' ['' @ entry_id e @ u '']''
      = answer @ 32 # 91 # entry_id e @ [93]"
    by (simp add: u_def)
  have ex: "extractCitations (answer @ u '' ['' @ entry_id e @ u '']'')
      = extractCitations answer @ [entry_id e]"
    unfolding appended extractCitations_scan
    by (simp only: tokens_by_before_space tokens_by_appended_id [OF assms(3)])
  show ?thesis
    using assms(1,2) by (auto simp: ex isValid_iff)
qed

lemma Q01_listed: "Q01 \<in> set example_kb"
  by (simp add: example_kb_def)

lemma Q01_id: "entry_id Q01 = u ''Q01''" "is_policy_id (entry_id Q01)"
  by (simp_all add: Q01_def is_policy_id_def citation_eval)

lemma ids_of_example_kb: "entry_id ` set example_kb = {u ''W01'', u ''Q01''}"
  by (simp add: example_kb_def Q01_def W01_def)

theorem appended_citation_is_valid_witness:
  "extractCitations (u ''Items may be returned within 30 days.'' @ u '' ['' @ entry_id Q01 @ u '']'')
     = [u ''Q01'']
   \<and> isValid (validateCitations example_kb
        (extractCitations
           (u ''Items may be returned within 30 days.'' @ u '' ['' @ entry_id Q01 @ u '']'')))"
proof -
  have none: "extractCitations (u ''Items may be returned within 30 days.'') = []"
    by (simp add: extractCitations_scan citation_eval)
  then have "isValid (validateCitations example_kb
      (extractCitations (u ''Items may be returned within 30 days.'')))"
    by (simp add: isValid_iff)
  from appended_citation_is_valid [OF this Q01_listed Q01_id(2)]
  have "extractCitations
        (u ''Items may be returned within 30 days.'' @ u '' ['' @ entry_id Q01 @ u '']'')
      = extractCitations (u ''Items may be returned within 30 days.'') @ [entry_id Q01]"
    and "isValid (validateCitations example_kb
        (extractCitations
           (u ''Items may be returned within 30 days.'' @ u '' ['' @ entry_id Q01 @ u '']'')))"
    by blast+
  then show ?thesis
    by (simp only: none Q01_id(1) append_Nil simp_thms)
qed

text \<open>
  C1 as stated is about every answer. An answer that cites something the knowledge base
  does not have, as "see [Zz]" does, stays invalid when a real id is appended.
\<close>

theorem foreign_citation_in_answer_is_invalid:
  "Q01 \<in> set example_kb
   \<and> extractCitations (u ''see [Zz]'' @ u '' ['' @ entry_id Q01 @ u '']'') = [u ''Zz'', u ''Q01'']
   \<and> \<not> isValid (validateCitations example_kb
        (extractCitations (u ''see [Zz]'' @ u '' ['' @ entry_id Q01 @ u '']'')))"
proof -
  have ex: "extractCitations (u ''see [Zz]'' @ u '' ['' @ entry_id Q01 @ u '']'')
      = [u ''Zz'', u ''Q01'']"
    by (simp add: extractCitations_scan Q01_def citation_eval)
  have "u ''Zz'' \<notin> entry_id ` set example_kb"
    by (simp add: ids_of_example_kb u_def)
  then show ?thesis
    by (simp add: ex isValid_iff Q01_listed)
qed

section \<open>Relevant policies: properties\<close>

lemma fold_family_count:
  "fold (\<lambda>entry score.
           if cat = fst entry
           then fold (\<lambda>kw score. if P kw then score + c else score) (snd entry) score
           else score) families a
     = a + c * length (filter P (concat (map snd (filter (\<lambda>family. cat = fst family) families))))"
  by (induction families arbitrary: a) (auto simp: fold_count algebra_simps)

text \<open>The score that the \<^verbatim>\<open>map\<close> callback computes is the score of the
  specification.\<close>

lemma policy_score_spec: "policy_score lower query e = spec_policy_score lower query e"
  by (simp add: policy_score_def spec_policy_score_def Let_def fold_count fold_family_count)



text \<open>The example knowledge base and the queries "warranty return" and "broken".\<close>

lemmas policy_eval = spec_policy_score_def Let_def LLMIntegration_categoryKeywords_def Q01_def
  W01_def split_ws.simps u_def unit_defs

lemma example_scores:
  "spec_policy_score toLowerCase_latin (u ''warranty return'') W01 = 1"
  "spec_policy_score toLowerCase_latin (u ''warranty return'') Q01 = 3"
  "spec_policy_score toLowerCase_latin (u ''broken'') W01 = 0"
  "spec_policy_score toLowerCase_latin (u ''broken'') Q01 = 0"
  by (simp_all add: policy_eval)

lemma example_ranking:
  "LLMIntegration_findRelevantPolicies toLowerCase_latin example_kb (u ''warranty return'')
     = [(Q01, 3), (W01, 1)]"
  "LLMIntegration_findRelevantPolicies toLowerCase_latin example_kb (u ''broken'') = []"
  by (simp_all add: example_scores LLMIntegration_findRelevantPolicies_def example_kb_def
      policy_score_spec)

lemma lower_examples:
  "toLowerCase_latin (u ''warranty return'') = u ''warranty return''"
  "toLowerCase_latin (u ''broken'') = u ''broken''"
  by (simp_all add: u_def unit_defs)

lemma matched_examples:
  "matched_categories (u ''warranty return'') = [u ''returns'', u ''warranty'']"
  "matched_categories (u ''broken'') = [u ''warranty'']"
  by (simp_all add: matched_categories_def categoryKeywords_def u_def)

lemma example_categories:
  "entry_category W01 = u ''warranty''" "entry_category Q01 = u ''returns''"
  "u ''warranty'' \<noteq> u ''returns''"
  by (simp_all add: W01_def Q01_def u_def)

lemma example_by_category:
  "findRelevantPolicies toLowerCase_latin example_kb (u ''warranty return'') = [W01, Q01]"
  "findRelevantPolicies toLowerCase_latin example_kb (u ''broken'') = [W01]"
  using example_categories(3)
  by (simp_all add: findRelevantPolicies_def lower_examples matched_examples example_kb_def
      example_categories(1,2) Let_def)



section \<open>Repeated grounding\<close>

text \<open>
  One call: it returns a new array with the entries that the function computes from the
  contents of the knowledge base, leaves every array that existed before as it was, and
  leaves the module variable as it was.
\<close>

lemma findRelevantPolicies_call_result:
  assumes "arrays m (knowledgeBase m) = Some (Entries kb)" and "knowledgeBase m < next_ref m"
  shows "\<exists>r m'. findRelevantPolicies_call lower q m = Some (r, m')
    \<and> next_ref m \<le> r \<and> r < next_ref m' \<and> knowledgeBase m' = knowledgeBase m
    \<and> (\<forall>a<next_ref m. arrays m' a = arrays m a)
    \<and> arrays m' r = Some (Entries (findRelevantPolicies lower kb q))"
  using assms
  by (simp add: findRelevantPolicies_call_def findRelevantPolicies_def Let_def new_array_def
      array_filter_def array_slice_def array_length_def)

lemma LLMIntegration_findRelevantPolicies_call_result:
  assumes "arrays m (knowledgeBase m) = Some (Entries kb)" and "knowledgeBase m < next_ref m"
  shows "\<exists>r m'. LLMIntegration_findRelevantPolicies_call lower q m = Some (r, m')
    \<and> next_ref m \<le> r \<and> r < next_ref m' \<and> knowledgeBase m' = knowledgeBase m
    \<and> (\<forall>a<next_ref m. arrays m' a = arrays m a)
    \<and> arrays m' r = Some (Scored (LLMIntegration_findRelevantPolicies lower kb q))"
  using assms
  by (simp add: LLMIntegration_findRelevantPolicies_call_def
      LLMIntegration_findRelevantPolicies_def Let_def new_array_def
      array_map_def scored_filter_def array_sort_def array_slice_def)

text \<open>Two calls, one after the other, of a function that behaves as the two lemmas above
  say.\<close>

lemma two_calls:
  assumes call: "\<And>m kb. arrays m (knowledgeBase m) = Some (Entries kb) \<Longrightarrow>
      knowledgeBase m < next_ref m \<Longrightarrow>
      \<exists>r m'. f m = Some (r, m')
        \<and> next_ref m \<le> r \<and> r < next_ref m' \<and> knowledgeBase m' = knowledgeBase m
        \<and> (\<forall>a<next_ref m. arrays m' a = arrays m a)
        \<and> arrays m' r = Some (g kb)"
    and kb: "arrays m (knowledgeBase m) = Some (Entries kb)"
    and valid: "knowledgeBase m < next_ref m"
  shows "\<exists>r1 m1 r2 m2. f m = Some (r1, m1) \<and> f m1 = Some (r2, m2)
    \<and> arrays m1 r1 = Some (g kb) \<and> arrays m2 r2 = Some (g kb) \<and> arrays m2 r1 = Some (g kb)
    \<and> r1 \<noteq> r2 \<and> r1 \<noteq> knowledgeBase m \<and> r2 \<noteq> knowledgeBase m
    \<and> knowledgeBase m1 = knowledgeBase m \<and> knowledgeBase m2 = knowledgeBase m
    \<and> arrays m1 (knowledgeBase m) = Some (Entries kb)
    \<and> arrays m2 (knowledgeBase m) = Some (Entries kb)"
proof -
  from call [OF kb valid] obtain r1 m1 where 1: "f m = Some (r1, m1)"
    "next_ref m \<le> r1" "r1 < next_ref m1" "knowledgeBase m1 = knowledgeBase m"
    "\<forall>a<next_ref m. arrays m1 a = arrays m a" "arrays m1 r1 = Some (g kb)"
    by blast
  have kb1: "arrays m1 (knowledgeBase m1) = Some (Entries kb)"
    using 1(4,5) kb valid by simp
  have valid1: "knowledgeBase m1 < next_ref m1"
    using 1(2,3,4) valid by simp
  from call [OF kb1 valid1] obtain r2 m2 where 2: "f m1 = Some (r2, m2)"
    "next_ref m1 \<le> r2" "r2 < next_ref m2" "knowledgeBase m2 = knowledgeBase m1"
    "\<forall>a<next_ref m1. arrays m2 a = arrays m1 a" "arrays m2 r2 = Some (g kb)"
    by blast
  have "arrays m2 r1 = Some (g kb)"
    using 1(3,6) 2(5) by simp
  moreover have "arrays m2 (knowledgeBase m) = Some (Entries kb)"
    using 2(5) kb1 valid1 1(4) by simp
  moreover have "r1 \<noteq> r2" "r1 \<noteq> knowledgeBase m" "r2 \<noteq> knowledgeBase m"
    using 1(2,3) 2(2) valid by simp_all
  ultimately show ?thesis
    using 1 2 kb1 by simp
qed

text \<open>
  C9. Let the module variable refer to an array of the memory (its reference is below the
  next unused one) that holds the entries \<open>kb\<close>. Two calls of
  \<^verbatim>\<open>findRelevantPolicies\<close> with the same query, one after the other, both return; they
  return two different arrays, neither of which is the knowledge base, with the same
  entries in the same order; the second call leaves the array that the first returned as
  it was; and after both calls the module variable refers to the same array, which still
  holds \<open>kb\<close>. This holds for the function of the citation validator and for the method
  of \<^verbatim>\<open>LLMIntegration\<close> (which sorts, in place, the array that its own \<^verbatim>\<open>filter\<close>
  built), whatever the lower-casing \<open>lower\<close> is.
\<close>

theorem grounding_is_repeatable:
  assumes "arrays m (knowledgeBase m) = Some (Entries kb)" and "knowledgeBase m < next_ref m"
  shows "(\<exists>r1 m1 r2 m2.
        findRelevantPolicies_call lower q m = Some (r1, m1)
      \<and> findRelevantPolicies_call lower q m1 = Some (r2, m2)
      \<and> arrays m1 r1 = Some (Entries (findRelevantPolicies lower kb q))
      \<and> arrays m2 r2 = Some (Entries (findRelevantPolicies lower kb q))
      \<and> arrays m2 r1 = Some (Entries (findRelevantPolicies lower kb q))
      \<and> r1 \<noteq> r2 \<and> r1 \<noteq> knowledgeBase m \<and> r2 \<noteq> knowledgeBase m
      \<and> knowledgeBase m1 = knowledgeBase m \<and> knowledgeBase m2 = knowledgeBase m
      \<and> arrays m1 (knowledgeBase m) = Some (Entries kb)
      \<and> arrays m2 (knowledgeBase m) = Some (Entries kb))
    \<and> (\<exists>r1 m1 r2 m2.
        LLMIntegration_findRelevantPolicies_call lower q m = Some (r1, m1)
      \<and> LLMIntegration_findRelevantPolicies_call lower q m1 = Some (r2, m2)
      \<and> arrays m1 r1 = Some (Scored (LLMIntegration_findRelevantPolicies lower kb q))
      \<and> arrays m2 r2 = Some (Scored (LLMIntegration_findRelevantPolicies lower kb q))
      \<and> arrays m2 r1 = Some (Scored (LLMIntegration_findRelevantPolicies lower kb q))
      \<and> r1 \<noteq> r2 \<and> r1 \<noteq> knowledgeBase m \<and> r2 \<noteq> knowledgeBase m
      \<and> knowledgeBase m1 = knowledgeBase m \<and> knowledgeBase m2 = knowledgeBase m
      \<and> arrays m1 (knowledgeBase m) = Some (Entries kb)
      \<and> arrays m2 (knowledgeBase m) = Some (Entries kb))"
proof
  show "\<exists>r1 m1 r2 m2.
        findRelevantPolicies_call lower q m = Some (r1, m1)
      \<and> findRelevantPolicies_call lower q m1 = Some (r2, m2)
      \<and> arrays m1 r1 = Some (Entries (findRelevantPolicies lower kb q))
      \<and> arrays m2 r2 = Some (Entries (findRelevantPolicies lower kb q))
      \<and> arrays m2 r1 = Some (Entries (findRelevantPolicies lower kb q))
      \<and> r1 \<noteq> r2 \<and> r1 \<noteq> knowledgeBase m \<and> r2 \<noteq> knowledgeBase m
      \<and> knowledgeBase m1 = knowledgeBase m \<and> knowledgeBase m2 = knowledgeBase m
      \<and> arrays m1 (knowledgeBase m) = Some (Entries kb)
      \<and> arrays m2 (knowledgeBase m) = Some (Entries kb)"
  proof (rule two_calls [where f = "findRelevantPolicies_call lower q"
        and g = "\<lambda>kb. Entries (findRelevantPolicies lower kb q)"])
    fix m' :: memory and kb'
    assume "arrays m' (knowledgeBase m') = Some (Entries kb')"
      and "knowledgeBase m' < next_ref m'"
    then show "\<exists>r m''. findRelevantPolicies_call lower q m' = Some (r, m'')
      \<and> next_ref m' \<le> r \<and> r < next_ref m'' \<and> knowledgeBase m'' = knowledgeBase m'
      \<and> (\<forall>a<next_ref m'. arrays m'' a = arrays m' a)
      \<and> arrays m'' r = Some (Entries (findRelevantPolicies lower kb' q))"
      by (rule findRelevantPolicies_call_result)
  qed (fact assms)+
  show "\<exists>r1 m1 r2 m2.
        LLMIntegration_findRelevantPolicies_call lower q m = Some (r1, m1)
      \<and> LLMIntegration_findRelevantPolicies_call lower q m1 = Some (r2, m2)
      \<and> arrays m1 r1 = Some (Scored (LLMIntegration_findRelevantPolicies lower kb q))
      \<and> arrays m2 r2 = Some (Scored (LLMIntegration_findRelevantPolicies lower kb q))
      \<and> arrays m2 r1 = Some (Scored (LLMIntegration_findRelevantPolicies lower kb q))
      \<and> r1 \<noteq> r2 \<and> r1 \<noteq> knowledgeBase m \<and> r2 \<noteq> knowledgeBase m
      \<and> knowledgeBase m1 = knowledgeBase m \<and> knowledgeBase m2 = knowledgeBase m
      \<and> arrays m1 (knowledgeBase m) = Some (Entries kb)
      \<and> arrays m2 (knowledgeBase m) = Some (Entries kb)"
  proof (rule two_calls [where f = "LLMIntegration_findRelevantPolicies_call lower q"
        and g = "\<lambda>kb. Scored (LLMIntegration_findRelevantPolicies lower kb q)"])
    fix m' :: memory and kb'
    assume "arrays m' (knowledgeBase m') = Some (Entries kb')"
      and "knowledgeBase m' < next_ref m'"
    then show "\<exists>r m''. LLMIntegration_findRelevantPolicies_call lower q m' = Some (r, m'')
      \<and> next_ref m' \<le> r \<and> r < next_ref m'' \<and> knowledgeBase m'' = knowledgeBase m'
      \<and> (\<forall>a<next_ref m'. arrays m'' a = arrays m' a)
      \<and> arrays m'' r = Some (Scored (LLMIntegration_findRelevantPolicies lower kb' q))"
      by (rule LLMIntegration_findRelevantPolicies_call_result)
  qed (fact assms)+
qed

text \<open>The example knowledge base as the only array of the memory, and the query
  "warranty return": the citation validator returns the two entries in the order of the
  knowledge base, \<^verbatim>\<open>LLMIntegration\<close> returns them sorted by score, the other way
  round, and the knowledge base keeps its order.\<close>

theorem grounding_is_repeatable_witness:
  "(\<exists>r1 m1 r2 m2.
        findRelevantPolicies_call toLowerCase_latin (u ''warranty return'') example_memory
          = Some (r1, m1)
      \<and> findRelevantPolicies_call toLowerCase_latin (u ''warranty return'') m1 = Some (r2, m2)
      \<and> arrays m1 r1 = Some (Entries [W01, Q01])
      \<and> arrays m2 r2 = Some (Entries [W01, Q01])
      \<and> arrays m2 r1 = Some (Entries [W01, Q01])
      \<and> r1 \<noteq> r2 \<and> r1 \<noteq> 0 \<and> r2 \<noteq> 0
      \<and> knowledgeBase m1 = 0 \<and> knowledgeBase m2 = 0
      \<and> arrays m1 0 = Some (Entries [W01, Q01])
      \<and> arrays m2 0 = Some (Entries [W01, Q01]))
   \<and> (\<exists>r1 m1 r2 m2.
        LLMIntegration_findRelevantPolicies_call toLowerCase_latin (u ''warranty return'')
          example_memory = Some (r1, m1)
      \<and> LLMIntegration_findRelevantPolicies_call toLowerCase_latin (u ''warranty return'') m1
          = Some (r2, m2)
      \<and> arrays m1 r1 = Some (Scored [(Q01, 3), (W01, 1)])
      \<and> arrays m2 r2 = Some (Scored [(Q01, 3), (W01, 1)])
      \<and> arrays m2 r1 = Some (Scored [(Q01, 3), (W01, 1)])
      \<and> r1 \<noteq> r2 \<and> r1 \<noteq> 0 \<and> r2 \<noteq> 0
      \<and> knowledgeBase m1 = 0 \<and> knowledgeBase m2 = 0
      \<and> arrays m1 0 = Some (Entries [W01, Q01])
      \<and> arrays m2 0 = Some (Entries [W01, Q01]))"
proof -
  have "arrays example_memory (knowledgeBase example_memory) = Some (Entries example_kb)"
    and "knowledgeBase example_memory < next_ref example_memory"
    by (simp_all add: example_memory_def)
  from grounding_is_repeatable [OF this, of toLowerCase_latin "u ''warranty return''"]
  have "(\<exists>r1 m1 r2 m2.
        findRelevantPolicies_call toLowerCase_latin (u ''warranty return'') example_memory
          = Some (r1, m1)
      \<and> findRelevantPolicies_call toLowerCase_latin (u ''warranty return'') m1 = Some (r2, m2)
      \<and> arrays m1 r1 = Some (Entries [W01, Q01])
      \<and> arrays m2 r2 = Some (Entries [W01, Q01])
      \<and> arrays m2 r1 = Some (Entries [W01, Q01])
      \<and> r1 \<noteq> r2 \<and> r1 \<noteq> knowledgeBase example_memory
      \<and> r2 \<noteq> knowledgeBase example_memory
      \<and> knowledgeBase m1 = knowledgeBase example_memory
      \<and> knowledgeBase m2 = knowledgeBase example_memory
      \<and> arrays m1 (knowledgeBase example_memory) = Some (Entries example_kb)
      \<and> arrays m2 (knowledgeBase example_memory) = Some (Entries example_kb))
   \<and> (\<exists>r1 m1 r2 m2.
        LLMIntegration_findRelevantPolicies_call toLowerCase_latin (u ''warranty return'')
          example_memory = Some (r1, m1)
      \<and> LLMIntegration_findRelevantPolicies_call toLowerCase_latin (u ''warranty return'') m1
          = Some (r2, m2)
      \<and> arrays m1 r1 = Some (Scored [(Q01, 3), (W01, 1)])
      \<and> arrays m2 r2 = Some (Scored [(Q01, 3), (W01, 1)])
      \<and> arrays m2 r1 = Some (Scored [(Q01, 3), (W01, 1)])
      \<and> r1 \<noteq> r2 \<and> r1 \<noteq> knowledgeBase example_memory
      \<and> r2 \<noteq> knowledgeBase example_memory
      \<and> knowledgeBase m1 = knowledgeBase example_memory
      \<and> knowledgeBase m2 = knowledgeBase example_memory
      \<and> arrays m1 (knowledgeBase example_memory) = Some (Entries example_kb)
      \<and> arrays m2 (knowledgeBase example_memory) = Some (Entries example_kb))"
    unfolding example_by_category example_ranking .
  moreover have "knowledgeBase example_memory = 0"
    by (simp add: example_memory_def)
  ultimately show ?thesis
    by (simp only: example_kb_def)
qed

section \<open>The order branch of the answer engine: properties\<close>

text \<open>With the \<^verbatim>\<open>i\<close> flag the class \<^verbatim>\<open>[A-Z0-9]\<close> holds the ASCII letters and digits.\<close>

lemma letters_ignoring_case:
  "atom_has True (Rng 65 90) c = (isUpperAZ c \<or> isLowerAZ c)"
  unfolding atom_has.simps if_True list_ex_iff set_upt
proof
  assume "\<exists>a\<in>{65..<Suc 90}. canon a = canon c"
  then obtain a where "65 \<le> a" "a \<le> 90" "canon a = canon c" by auto
  then show "isUpperAZ c \<or> isLowerAZ c"
    by (auto simp: canon_def isUpperAZ_def isLowerAZ_def split: if_splits)
next
  assume c: "isUpperAZ c \<or> isLowerAZ c"
  then have "canon c \<in> {65..<Suc 90}" "canon (canon c) = canon c"
    by (auto simp: canon_def isUpperAZ_def isLowerAZ_def)
  then show "\<exists>a\<in>{65..<Suc 90}. canon a = canon c" by blast
qed

lemma digits_ignoring_case: "atom_has True (Rng 48 57) c = isDigit c"
  unfolding atom_has.simps if_True list_ex_iff set_upt
proof
  assume "\<exists>a\<in>{48..<Suc 57}. canon a = canon c"
  then obtain a where "48 \<le> a" "a \<le> 57" "canon a = canon c" by auto
  then show "isDigit c"
    by (auto simp: canon_def isDigit_def isLowerAZ_def split: if_splits)
next
  assume c: "isDigit c"
  then have "c \<in> {48..<Suc 57}"
    by (auto simp: isDigit_def)
  then show "\<exists>a\<in>{48..<Suc 57}. canon a = canon c" by blast
qed

lemma cls_alnum: "cls_has True alnum c = isAlnum c"
  by (simp add: alnum_def isAlnum_def letters_ignoring_case digits_ignoring_case
      del: atom_has.simps)

text \<open>The greedy repetition stops where the run of the class ends: it fails on a run
  shorter than the minimum, and its first result is the end of the run.\<close>

lemma reps_run:
  "(case reps ic k n p s of
      [] \<Rightarrow> length (takeWhile (cls_has ic k) s) < n
    | q # qs \<Rightarrow> n \<le> length (takeWhile (cls_has ic k) s) \<and> snd q = dropWhile (cls_has ic k) s)"
proof (induction s arbitrary: n p)
  case Nil
  then show ?case by simp
next
  case (Cons c cs)
  show ?case
  proof (cases "cls_has ic k c")
    case True
    then show ?thesis
      using Cons.IH [of "n - 1" "Some c"]
      by (cases "reps ic k (n - 1) (Some c) cs") auto
  next
    case False
    then show ?thesis by simp
  qed
qed

lemma first_match_orderId:
  "first_match orderIdPattern p s =
     (if 10 \<le> length (takeWhile isAlnum s)
      then Some (fst (hd (reps True alnum 10 p s)), dropWhile isAlnum s) else None)"
  using reps_run [where ic = True and k = alnum and n = 10 and p = p and s = s]
  by (cases "reps True alnum 10 p s")
    (auto simp: first_match_def orderIdPattern_def cls_alnum [abs_def])



lemma exec_orderId_Nil: "exec orderIdPattern p [] = None"
  by (simp add: first_match_orderId)


text \<open>Every string in which 10 alphanumeric characters follow one another somewhere has
  such a first run.\<close>

lemma first_run_exists:
  assumes "\<exists>i. 10 \<le> length (takeWhile isAlnum (drop i s))"
  shows "\<exists>pre oid post. s = pre @ oid @ post
    \<and> (\<forall>i<length pre. length (takeWhile isAlnum (drop i s)) < 10)
    \<and> 10 \<le> length oid \<and> list_all isAlnum oid \<and> (post = [] \<or> \<not> isAlnum (hd post))"
proof -
  define n where "n = (LEAST i. 10 \<le> length (takeWhile isAlnum (drop i s)))"
  have n: "10 \<le> length (takeWhile isAlnum (drop n s))"
    unfolding n_def using assms by (rule LeastI_ex)
  have least: "\<forall>i<n. length (takeWhile isAlnum (drop i s)) < 10"
    unfolding n_def
    using not_less_Least [of _ "\<lambda>i. 10 \<le> length (takeWhile isAlnum (drop i s))"]
    by (auto simp: not_le)
  have "n \<le> length s"
    using n by (cases "n \<le> length s") auto
  let ?pre = "take n s" and ?oid = "takeWhile isAlnum (drop n s)"
    and ?post = "dropWhile isAlnum (drop n s)"
  have "s = ?pre @ ?oid @ ?post" by simp
  moreover have "\<forall>i<length ?pre. length (takeWhile isAlnum (drop i s)) < 10"
    using least by simp
  moreover have "list_all isAlnum ?oid"
    by (auto simp: list_all_iff dest: set_takeWhileD)
  moreover have "?post = [] \<or> \<not> isAlnum (hd ?post)"
    using hd_dropWhile [of isAlnum "drop n s"] by blast
  ultimately show ?thesis
    using n by blast
qed


















end
